theory Spec2Isabelle
  imports Main "HOL-Library.Word"
begin

section \<open>Data model\<close>

text \<open>
  The vault subsystem of nAuth: \<^verbatim>\<open>encryption.service.ts\<close>, \<^verbatim>\<open>vault.service.ts\<close>,
  \<^verbatim>\<open>account.service.ts\<close>, \<^verbatim>\<open>biometric.service.ts\<close>, \<^verbatim>\<open>storage.service.ts\<close> and
  \<^verbatim>\<open>otp.service.ts\<close>. JavaScript strings are modelled as HOL strings (sequences of
  8-bit characters), a \<^verbatim>\<open>Uint8Array\<close> as a list of 8-bit words, and a CryptoJS
  \<^verbatim>\<open>WordArray\<close> as a record of 32-bit words with its count of significant bytes.
  \<^verbatim>\<open>async\<close> functions are modelled as sequential state transformers; every
  \<^verbatim>\<open>throw\<close> is a value \<open>Inl e\<close>.
\<close>

type_synonym byte = "8 word"
type_synonym bytes = "byte list"

record wordarray =
  words :: "32 word list"
  sigBytes :: nat

datatype otp_type = TOTP | HOTP

datatype hash_algorithm = SHA1 | SHA256 | SHA512

text \<open>\<^verbatim>\<open>Omit<Account, 'id' | 'createdAt' | 'updatedAt'>\<close> and \<^verbatim>\<open>Account\<close> (types/index.ts).\<close>

record account_input =
  name :: string
  issuer :: string
  secret :: string
  otp_type :: otp_type
  algorithm :: hash_algorithm
  digits :: nat
  period :: int
  counter :: int

record account = account_input +
  account_id :: string
  createdAt :: nat
  updatedAt :: nat

text \<open>The object returned by \<^verbatim>\<open>EncryptionService.encrypt\<close>.\<close>

record envelope =
  encrypted :: string
  salt :: string
  iv :: string
  hmac :: string

text \<open>\<^verbatim>\<open>EncryptedVault\<close>, the persisted record.\<close>

record encrypted_vault =
  v_version :: string
  v_salt :: string
  v_iv :: string
  v_data :: string
  v_hmac :: string

text \<open>The \<^verbatim>\<open>exportData\<close> object of \<^verbatim>\<open>exportVault\<close>.\<close>

record export_data =
  x_version :: string
  x_encryptedData :: string
  x_salt :: string
  x_iv :: string
  x_hmac :: string
  x_checksum :: string

text \<open>The object stored by \<^verbatim>\<open>BiometricService.enable\<close> under \<^verbatim>\<open>encrypted_session_key\<close>.\<close>

record session_data =
  s_encrypted :: string
  s_salt :: string
  s_iv :: string
  s_hmac :: string
  s_sessionKey :: string

datatype error =
    VaultAlreadyExists
  | VaultDoesNotExist
  | VaultIsLocked
  | VaultMustBeUnlocked
  | IntegrityCheckFailed
  | DecryptionFailed
  | MalformedUtf8
  | InvalidCharacterError
  | JsonSyntaxError
  | ChecksumVerificationFailed
  | FailedToImportVault
  | InvalidSecretKey

text \<open>
  The process-wide state: the three static fields of \<^verbatim>\<open>VaultService\<close>, the two
  key-value stores \<^verbatim>\<open>StorageService\<close> can reach (the browser's \<^verbatim>\<open>localStorage\<close> and
  the store behind Electron's IPC), and a counter of the interactions with the
  environment (clock readings, random draws, biometric prompts) made so far.
\<close>

record world =
  masterPassword :: "string option"
  accounts :: "account list"
  isUnlocked :: bool
  localStorage :: "string \<rightharpoonup> string"
  electronStore :: "string \<rightharpoonup> string"
  tick :: nat

text \<open>
  Everything the services call that is not code of the repository: Web Crypto
  (\<^verbatim>\<open>TextEncoder\<close>, PBKDF2 \<^verbatim>\<open>deriveBits\<close>, \<^verbatim>\<open>getRandomValues\<close>), crypto-js (AES-CBC with
  PKCS7, HMAC-SHA256, SHA-256 and the Hex, Base64 and Utf8 encoders), the platform's
  \<^verbatim>\<open>btoa\<close>/\<^verbatim>\<open>atob\<close> and \<^verbatim>\<open>JSON\<close>, the otpauth constructor, the clock, \<^verbatim>\<open>Math.random\<close>,
  and the platform probes of \<^verbatim>\<open>getPlatformInfo\<close> with Electron's preload API.
  They are parameters of the model. The environment's answers are indexed by the
  interaction counter, so that successive calls may return different values.
  A function that can throw returns an option: \<open>None\<close> is the exception.
\<close>

record ext =
  text_encode :: "string \<Rightarrow> bytes"
  pbkdf2 :: "bytes \<Rightarrow> bytes \<Rightarrow> nat \<Rightarrow> string \<Rightarrow> nat \<Rightarrow> bytes"
  aes_encrypt :: "string \<Rightarrow> wordarray \<Rightarrow> wordarray \<Rightarrow> wordarray"
  aes_decrypt :: "wordarray \<Rightarrow> wordarray \<Rightarrow> wordarray \<Rightarrow> wordarray"
  hmac_sha256 :: "string \<Rightarrow> wordarray \<Rightarrow> wordarray"
  sha256 :: "string \<Rightarrow> wordarray"
  enc_hex :: "wordarray \<Rightarrow> string"
  enc_base64_stringify :: "wordarray \<Rightarrow> string"
  enc_base64_parse :: "string \<Rightarrow> wordarray"
  enc_utf8_stringify :: "wordarray \<Rightarrow> string option"
  btoa :: "string \<Rightarrow> string"
  atob :: "string \<Rightarrow> string option"
  stringify_accounts :: "account list \<Rightarrow> string"
  parse_accounts :: "string \<Rightarrow> account list option"
  stringify_vault :: "encrypted_vault \<Rightarrow> string"
  parse_vault :: "string \<Rightarrow> encrypted_vault option"
  stringify_export :: "export_data \<Rightarrow> string"
  parse_export :: "string \<Rightarrow> export_data option"
  stringify_session :: "session_data \<Rightarrow> string"
  parse_session :: "string \<Rightarrow> session_data option"
  otpauth_totp :: "string \<Rightarrow> bool"
  date_now :: "nat \<Rightarrow> nat"
  math_random_36 :: "nat \<Rightarrow> string"
  random_byte :: "nat \<Rightarrow> nat \<Rightarrow> byte"
  isElectron :: bool
  isCapacitor :: bool
  electron_storage :: bool
  electron_biometric :: "(nat \<Rightarrow> string \<Rightarrow> bool) option"

section \<open>EncryptionService\<close>

definition PBKDF2_ITERATIONS :: nat where
  "PBKDF2_ITERATIONS = 100000"

definition KEY_LENGTH :: nat where
  "KEY_LENGTH = 32"

definition deriveKey :: "ext \<Rightarrow> string \<Rightarrow> bytes \<Rightarrow> bytes" where
  "deriveKey L password saltBytes =
     pbkdf2 L (text_encode L password) saltBytes PBKDF2_ITERATIONS ''SHA-256'' (KEY_LENGTH * 8)"

text \<open>\<^verbatim>\<open>crypto.getRandomValues\<close> on a fresh \<^verbatim>\<open>Uint8Array(n)\<close>: one interaction, \<open>n\<close> bytes.\<close>

definition getRandomValues :: "ext \<Rightarrow> nat \<Rightarrow> world \<Rightarrow> bytes \<times> world" where
  "getRandomValues L n w = (map (random_byte L (tick w)) [0..<n], w\<lparr>tick := Suc (tick w)\<rparr>)"

definition generateSalt :: "ext \<Rightarrow> world \<Rightarrow> bytes \<times> world" where
  "generateSalt L w = getRandomValues L 16 w"

definition generateIV :: "ext \<Rightarrow> world \<Rightarrow> bytes \<times> world" where
  "generateIV L w = getRandomValues L 16 w"

text \<open>
  \<^verbatim>\<open>CryptoJS.lib.WordArray.create(Array.from(bytes))\<close>: the plain array of numbers is
  taken as an array of 32-bit words, one word per byte, hence four significant bytes
  for every byte of the input.
\<close>

definition toWordArray :: "bytes \<Rightarrow> wordarray" where
  "toWordArray bs = \<lparr>words = map ucast bs, sigBytes = 4 * length bs\<rparr>"

text \<open>The loops over \<^verbatim>\<open>String.fromCharCode(buffer[i])\<close> and \<^verbatim>\<open>binary.charCodeAt(i)\<close>.\<close>

definition fromCharCode :: "byte \<Rightarrow> char" where
  "fromCharCode b = char_of (unat b)"

definition charCodeAt :: "char \<Rightarrow> byte" where
  "charCodeAt c = of_nat (of_char c)"

definition arrayBufferToBase64 :: "ext \<Rightarrow> bytes \<Rightarrow> string" where
  "arrayBufferToBase64 L buffer = btoa L (map fromCharCode buffer)"

definition base64ToUint8Array :: "ext \<Rightarrow> string \<Rightarrow> error + bytes" where
  "base64ToUint8Array L base64 =
     (case atob L base64 of
        None \<Rightarrow> Inl InvalidCharacterError
      | Some binary \<Rightarrow> Inr (map charCodeAt binary))"

definition encrypt ::
  "ext \<Rightarrow> string \<Rightarrow> string \<Rightarrow> bytes option \<Rightarrow> bytes option \<Rightarrow> world \<Rightarrow> envelope \<times> world" where
  "encrypt L data password salt_opt iv_opt w =
     (let (saltBytes, w1) = (case salt_opt of Some s \<Rightarrow> (s, w) | None \<Rightarrow> generateSalt L w);
          (ivBytes, w2) = (case iv_opt of Some i \<Rightarrow> (i, w1) | None \<Rightarrow> generateIV L w1);
          keyBytes = deriveKey L password saltBytes;
          key = toWordArray keyBytes;
          ivWordArray = toWordArray ivBytes;
          ciphertext = aes_encrypt L data key ivWordArray;
          mac = enc_hex L (hmac_sha256 L (enc_hex L ciphertext) key)
      in (\<lparr>encrypted = enc_base64_stringify L ciphertext,
           salt = arrayBufferToBase64 L saltBytes,
           iv = arrayBufferToBase64 L ivBytes,
           hmac = mac\<rparr>, w2))"

text \<open>The HMAC that \<^verbatim>\<open>decrypt\<close> recomputes from the ciphertext and the derived key.\<close>

definition computedHmac :: "ext \<Rightarrow> string \<Rightarrow> string \<Rightarrow> bytes \<Rightarrow> string" where
  "computedHmac L encryptedData password saltBytes =
     enc_hex L (hmac_sha256 L (enc_hex L (enc_base64_parse L encryptedData))
                  (toWordArray (deriveKey L password saltBytes)))"

definition decrypt :: "ext \<Rightarrow> string \<Rightarrow> string \<Rightarrow> string \<Rightarrow> string \<Rightarrow> string \<Rightarrow> error + string" where
  "decrypt L encryptedData password salt_s iv_s hmac_s =
     (case base64ToUint8Array L salt_s of
        Inl e \<Rightarrow> Inl e
      | Inr saltBytes \<Rightarrow>
     (case base64ToUint8Array L iv_s of
        Inl e \<Rightarrow> Inl e
      | Inr ivBytes \<Rightarrow>
        let keyBytes = deriveKey L password saltBytes;
            key = toWordArray keyBytes;
            ivWordArray = toWordArray ivBytes;
            ciphertext = enc_base64_parse L encryptedData
        in if computedHmac L encryptedData password saltBytes \<noteq> hmac_s
           then Inl IntegrityCheckFailed
           else (case enc_utf8_stringify L (aes_decrypt L ciphertext key ivWordArray) of
                   None \<Rightarrow> Inl MalformedUtf8
                 | Some decryptedString \<Rightarrow>
                     if decryptedString = [] then Inl DecryptionFailed
                     else Inr decryptedString)))"

definition generateTransferKey :: "ext \<Rightarrow> world \<Rightarrow> string \<times> world" where
  "generateTransferKey L w =
     (let (array, w1) = getRandomValues L 32 w in (arrayBufferToBase64 L array, w1))"

definition createChecksum :: "ext \<Rightarrow> string \<Rightarrow> string" where
  "createChecksum L data = take 8 (enc_hex L (sha256 L data))"

section \<open>StorageService\<close>

text \<open>
  Every operation of \<^verbatim>\<open>StorageService\<close> prefixes the key and goes to \<^verbatim>\<open>localStorage\<close>,
  except under Electron with the preload storage API, where it goes through IPC.
  The stores themselves are modelled as reliable maps (the fallback taken when the IPC
  call throws is therefore never entered).
\<close>

definition STORAGE_PREFIX :: string where
  "STORAGE_PREFIX = ''nauth_''"

definition setItem :: "ext \<Rightarrow> string \<Rightarrow> string \<Rightarrow> world \<Rightarrow> world" where
  "setItem L key v w =
     (let fullKey = STORAGE_PREFIX @ key in
      if isCapacitor L then w\<lparr>localStorage := (localStorage w)(fullKey \<mapsto> v)\<rparr>
      else if isElectron L then
        (if electron_storage L then w\<lparr>electronStore := (electronStore w)(fullKey \<mapsto> v)\<rparr>
         else w\<lparr>localStorage := (localStorage w)(fullKey \<mapsto> v)\<rparr>)
      else w\<lparr>localStorage := (localStorage w)(fullKey \<mapsto> v)\<rparr>)"

definition getItem :: "ext \<Rightarrow> string \<Rightarrow> world \<Rightarrow> string option" where
  "getItem L key w =
     (let fullKey = STORAGE_PREFIX @ key in
      if isCapacitor L then localStorage w fullKey
      else if isElectron L then
        (if electron_storage L then electronStore w fullKey else localStorage w fullKey)
      else localStorage w fullKey)"

definition removeItem :: "ext \<Rightarrow> string \<Rightarrow> world \<Rightarrow> world" where
  "removeItem L key w =
     (let fullKey = STORAGE_PREFIX @ key in
      if isCapacitor L then w\<lparr>localStorage := (localStorage w)(fullKey := None)\<rparr>
      else if isElectron L then
        (if electron_storage L then w\<lparr>electronStore := (electronStore w)(fullKey := None)\<rparr>
         else w\<lparr>localStorage := (localStorage w)(fullKey := None)\<rparr>)
      else w\<lparr>localStorage := (localStorage w)(fullKey := None)\<rparr>)"

section \<open>The environment: clock and random numbers\<close>

definition dateNow :: "ext \<Rightarrow> world \<Rightarrow> nat \<times> world" where
  "dateNow L w = (date_now L (tick w), w\<lparr>tick := Suc (tick w)\<rparr>)"

text \<open>\<^verbatim>\<open>Math.random().toString(36)\<close>, as the environment renders it.\<close>

definition mathRandom36 :: "ext \<Rightarrow> world \<Rightarrow> string \<times> world" where
  "mathRandom36 L w = (math_random_36 L (tick w), w\<lparr>tick := Suc (tick w)\<rparr>)"

text \<open>The decimal rendering of a number in a template literal.\<close>

definition digit_char :: "nat \<Rightarrow> char" where
  "digit_char d = ''0123456789'' ! d"

fun decimal :: "nat \<Rightarrow> string" where
  "decimal n = (if n < 10 then [digit_char n] else decimal (n div 10) @ [digit_char (n mod 10)])"

declare decimal.simps [simp del]

text \<open>\<^verbatim>\<open>s.substring(a, b)\<close> for \<open>a \<le> b\<close>.\<close>

definition substring :: "nat \<Rightarrow> nat \<Rightarrow> string \<Rightarrow> string" where
  "substring a b s = take (b - a) (drop a s)"

text \<open>A string or \<^verbatim>\<open>null\<close> in a condition: \<^verbatim>\<open>null\<close> and the empty string are falsy.\<close>

definition truthy :: "string option \<Rightarrow> bool" where
  "truthy s = (case s of None \<Rightarrow> False | Some v \<Rightarrow> v \<noteq> [])"

section \<open>VaultService\<close>

definition VAULT_KEY :: string where
  "VAULT_KEY = ''vault''"

definition VAULT_VERSION :: string where
  "VAULT_VERSION = ''1.0.0''"

definition initialize :: "ext \<Rightarrow> world \<Rightarrow> bool" where
  "initialize L w = (getItem L VAULT_KEY w \<noteq> None)"

definition saveVault :: "ext \<Rightarrow> world \<Rightarrow> (error + unit) \<times> world" where
  "saveVault L w =
     (case masterPassword w of
        None \<Rightarrow> (Inl VaultIsLocked, w)
      | Some pw \<Rightarrow>
          if \<not> isUnlocked w \<or> pw = [] then (Inl VaultIsLocked, w)
          else
            let data = stringify_accounts L (accounts w);
                (enc, w1) = encrypt L data pw None None w;
                vault = \<lparr>v_version = VAULT_VERSION, v_salt = salt enc, v_iv = iv enc,
                         v_data = encrypted enc, v_hmac = hmac enc\<rparr>
            in (Inr (), setItem L VAULT_KEY (stringify_vault L vault) w1))"

definition createVault :: "ext \<Rightarrow> string \<Rightarrow> world \<Rightarrow> (error + unit) \<times> world" where
  "createVault L pw w =
     (if initialize L w then (Inl VaultAlreadyExists, w)
      else saveVault L (w\<lparr>masterPassword := Some pw, accounts := [], isUnlocked := True\<rparr>))"

text \<open>The body of the \<^verbatim>\<open>try\<close> block of \<^verbatim>\<open>unlockVault\<close>, up to the value assigned to
  \<^verbatim>\<open>this.accounts\<close>.\<close>

definition unlockVault_try :: "ext \<Rightarrow> string \<Rightarrow> string \<Rightarrow> error + account list" where
  "unlockVault_try L pw vaultData =
     (case parse_vault L vaultData of
        None \<Rightarrow> Inl JsonSyntaxError
      | Some vault \<Rightarrow>
          (case decrypt L (v_data vault) pw (v_salt vault) (v_iv vault) (v_hmac vault) of
             Inl e \<Rightarrow> Inl e
           | Inr decryptedData \<Rightarrow>
               (case parse_accounts L decryptedData of
                  None \<Rightarrow> Inl JsonSyntaxError
                | Some accs \<Rightarrow> Inr accs)))"

definition unlockVault :: "ext \<Rightarrow> string \<Rightarrow> world \<Rightarrow> (error + bool) \<times> world" where
  "unlockVault L pw w =
     (case getItem L VAULT_KEY w of
        None \<Rightarrow> (Inl VaultDoesNotExist, w)
      | Some vaultData \<Rightarrow>
          if vaultData = [] then (Inl VaultDoesNotExist, w)
          else
            (case unlockVault_try L pw vaultData of
               Inl e \<Rightarrow> (Inr False, w)
             | Inr accs \<Rightarrow>
                 (Inr True, w\<lparr>accounts := accs, masterPassword := Some pw, isUnlocked := True\<rparr>)))"

definition lockVault :: "world \<Rightarrow> world" where
  "lockVault w =
     (let w1 = w\<lparr>accounts := [], isUnlocked := False\<rparr>
      in if truthy (masterPassword w1) then w1\<lparr>masterPassword := None\<rparr> else w1)"

definition getAccounts :: "world \<Rightarrow> error + account list" where
  "getAccounts w = (if \<not> isUnlocked w then Inl VaultIsLocked else Inr (accounts w))"


definition isVaultUnlocked :: "world \<Rightarrow> bool" where
  "isVaultUnlocked w = isUnlocked w"

definition generateId :: "ext \<Rightarrow> world \<Rightarrow> string \<times> world" where
  "generateId L w =
     (let (now, w1) = dateNow L w;
          (r, w2) = mathRandom36 L w1
      in (decimal now @ ''-'' @ substring 2 11 r, w2))"

definition addAccount :: "ext \<Rightarrow> account_input \<Rightarrow> world \<Rightarrow> (error + account) \<times> world" where
  "addAccount L a w =
     (if \<not> isUnlocked w then (Inl VaultIsLocked, w)
      else
        let (i, w1) = generateId L w;
            (c, w2) = dateNow L w1;
            (u, w3) = dateNow L w2;
            newAccount = \<lparr>name = name a, issuer = issuer a, secret = secret a,
                          otp_type = otp_type a, algorithm = algorithm a, digits = digits a,
                          period = period a, counter = counter a,
                          account_id = i, createdAt = c, updatedAt = u\<rparr>;
            w4 = w3\<lparr>accounts := accounts w3 @ [newAccount]\<rparr>
        in (case saveVault L w4 of
              (Inl e, w5) \<Rightarrow> (Inl e, w5)
            | (Inr _, w5) \<Rightarrow> (Inr newAccount, w5)))"

definition exportVault :: "ext \<Rightarrow> string option \<Rightarrow> world \<Rightarrow> (error + string) \<times> world" where
  "exportVault L transferPassword w =
     (case masterPassword w of
        None \<Rightarrow> (Inl VaultIsLocked, w)
      | Some mpw \<Rightarrow>
          if \<not> isUnlocked w \<or> mpw = [] then (Inl VaultIsLocked, w)
          else
            let password = (case transferPassword of
                              None \<Rightarrow> mpw
                            | Some tp \<Rightarrow> if tp = [] then mpw else tp);
                data = stringify_accounts L (accounts w);
                (enc, w1) = encrypt L data password None None w;
                checksum = createChecksum L data;
                exportData = \<lparr>x_version = VAULT_VERSION, x_encryptedData = encrypted enc,
                              x_salt = salt enc, x_iv = iv enc, x_hmac = hmac enc,
                              x_checksum = checksum\<rparr>
            in (Inr (stringify_export L exportData), w1))"

text \<open>The \<^verbatim>\<open>for\<close> loop of \<^verbatim>\<open>importVault\<close>, with its counter.\<close>

fun import_loop :: "ext \<Rightarrow> account list \<Rightarrow> nat \<Rightarrow> world \<Rightarrow> (error + nat) \<times> world" where
  "import_loop L [] importedCount w = (Inr importedCount, w)"
| "import_loop L (a # rest) importedCount w =
     (if list_ex (\<lambda>acc. issuer acc = issuer a \<and> name acc = name a) (accounts w)
      then import_loop L rest importedCount w
      else
        (case addAccount L \<lparr>name = name a, issuer = issuer a, secret = secret a,
                            otp_type = otp_type a, algorithm = algorithm a, digits = digits a,
                            period = period a, counter = counter a\<rparr> w of
           (Inl e, w1) \<Rightarrow> (Inl e, w1)
         | (Inr _, w1) \<Rightarrow> import_loop L rest (importedCount + 1) w1))"

text \<open>The body of the \<^verbatim>\<open>try\<close> block of \<^verbatim>\<open>importVault\<close>.\<close>

definition importVault_try :: "ext \<Rightarrow> string \<Rightarrow> string \<Rightarrow> world \<Rightarrow> (error + nat) \<times> world" where
  "importVault_try L exportedData transferPassword w =
     (case parse_export L exportedData of
        None \<Rightarrow> (Inl JsonSyntaxError, w)
      | Some importData \<Rightarrow>
          (case decrypt L (x_encryptedData importData) transferPassword
                  (x_salt importData) (x_iv importData) (x_hmac importData) of
             Inl e \<Rightarrow> (Inl e, w)
           | Inr decryptedData \<Rightarrow>
               if createChecksum L decryptedData \<noteq> x_checksum importData
               then (Inl ChecksumVerificationFailed, w)
               else
                 (case parse_accounts L decryptedData of
                    None \<Rightarrow> (Inl JsonSyntaxError, w)
                  | Some importedAccounts \<Rightarrow> import_loop L importedAccounts 0 w)))"

definition importVault :: "ext \<Rightarrow> string \<Rightarrow> string \<Rightarrow> world \<Rightarrow> (error + nat) \<times> world" where
  "importVault L exportedData transferPassword w =
     (if \<not> isUnlocked w then (Inl VaultMustBeUnlocked, w)
      else
        (case importVault_try L exportedData transferPassword w of
           (Inl e, w1) \<Rightarrow> (Inl FailedToImportVault, w1)
         | (Inr n, w1) \<Rightarrow> (Inr n, w1)))"

definition changeMasterPassword ::
  "ext \<Rightarrow> string \<Rightarrow> string \<Rightarrow> world \<Rightarrow> (error + bool) \<times> world" where
  "changeMasterPassword L currentPassword newPassword w =
     (if \<not> isUnlocked w then (Inl VaultIsLocked, w)
      else if Some currentPassword \<noteq> masterPassword w then (Inr False, w)
      else
        (case saveVault L (w\<lparr>masterPassword := Some newPassword\<rparr>) of
           (Inl e, w1) \<Rightarrow> (Inl e, w1)
         | (Inr _, w1) \<Rightarrow> (Inr True, w1)))"

definition deleteVault :: "ext \<Rightarrow> world \<Rightarrow> world" where
  "deleteVault L w = removeItem L VAULT_KEY (lockVault w)"

section \<open>OTPService.validateSecret and AccountService.addManual\<close>

text \<open>
  \<^verbatim>\<open>secret.replace(/\s/g, '').toUpperCase()\<close>. The characters of the model are the
  8-bit code units U+0000 to U+00FF. The white space of \<^verbatim>\<open>\s\<close> among them is TAB, LF, VT,
  FF, CR, space and the no-break space.

  \<^verbatim>\<open>toUpperCase\<close> replaces every character by its capital form in Unicode: an ASCII
  letter and a letter from U+00E0 to U+00FE (the division sign U+00F7 apart) by the
  character 32 places below it, the sharp s U+00DF by the two letters \<^verbatim>\<open>SS\<close>, and every
  other character by itself. Two characters have their capital outside the alphabet of
  the model: the micro sign U+00B5 (capital U+039C) and U+00FF (capital U+0178). The
  capital form of a string that holds one of them is no string of the model, which is
  the value \<open>None\<close>; such a string matches no pattern over ASCII characters.
\<close>

definition isWhitespace :: "char \<Rightarrow> bool" where
  "isWhitespace c =
     (c \<in> set [CHR 0x09, CHR 0x0A, CHR 0x0B, CHR 0x0C, CHR 0x0D, CHR 0x20, CHR 0xA0])"

definition removeWhitespace :: "string \<Rightarrow> string" where
  "removeWhitespace s = filter (\<lambda>c. \<not> isWhitespace c) s"

definition upperTable :: "(char \<times> string) list" where
  "upperTable =
     zip ''abcdefghijklmnopqrstuvwxyz''
         (map (\<lambda>c. [c]) ''ABCDEFGHIJKLMNOPQRSTUVWXYZ'') @
     [(CHR 0xDF, ''SS'')] @
     zip [CHR 0xE0, CHR 0xE1, CHR 0xE2, CHR 0xE3, CHR 0xE4, CHR 0xE5, CHR 0xE6, CHR 0xE7,
          CHR 0xE8, CHR 0xE9, CHR 0xEA, CHR 0xEB, CHR 0xEC, CHR 0xED, CHR 0xEE, CHR 0xEF,
          CHR 0xF0, CHR 0xF1, CHR 0xF2, CHR 0xF3, CHR 0xF4, CHR 0xF5, CHR 0xF6, CHR 0xF8,
          CHR 0xF9, CHR 0xFA, CHR 0xFB, CHR 0xFC, CHR 0xFD, CHR 0xFE]
         (map (\<lambda>c. [c])
            [CHR 0xC0, CHR 0xC1, CHR 0xC2, CHR 0xC3, CHR 0xC4, CHR 0xC5, CHR 0xC6, CHR 0xC7,
             CHR 0xC8, CHR 0xC9, CHR 0xCA, CHR 0xCB, CHR 0xCC, CHR 0xCD, CHR 0xCE, CHR 0xCF,
             CHR 0xD0, CHR 0xD1, CHR 0xD2, CHR 0xD3, CHR 0xD4, CHR 0xD5, CHR 0xD6, CHR 0xD8,
             CHR 0xD9, CHR 0xDA, CHR 0xDB, CHR 0xDC, CHR 0xDD, CHR 0xDE])"

definition upperChar :: "char \<Rightarrow> string option" where
  "upperChar c =
     (if c = CHR 0xB5 \<or> c = CHR 0xFF then None
      else (case map_of upperTable c of
              Some u \<Rightarrow> Some u
            | None \<Rightarrow> Some [c]))"

fun toUpperCase :: "string \<Rightarrow> string option" where
  "toUpperCase [] = Some []"
| "toUpperCase (c # cs) =
     (case upperChar c of
        None \<Rightarrow> None
      | Some u \<Rightarrow> (case toUpperCase cs of None \<Rightarrow> None | Some us \<Rightarrow> Some (u @ us)))"

text \<open>The regular expression \<^verbatim>\<open>/^[A-Z2-7]+=*$/\<close>.\<close>

definition isBase32Char :: "char \<Rightarrow> bool" where
  "isBase32Char c = (c \<in> set ''ABCDEFGHIJKLMNOPQRSTUVWXYZ234567'')"

definition base32Regex :: "string \<Rightarrow> bool" where
  "base32Regex s =
     (takeWhile isBase32Char s \<noteq> [] \<and> list_all (\<lambda>c. c = CHR ''='') (dropWhile isBase32Char s))"

definition validateSecret :: "ext \<Rightarrow> string \<Rightarrow> bool" where
  "validateSecret L s =
     (case toUpperCase (removeWhitespace s) of
        None \<Rightarrow> False
      | Some cleanSecret \<Rightarrow>
          if \<not> base32Regex cleanSecret then False
          else otpauth_totp L cleanSecret)"

definition addManual :: "ext \<Rightarrow> account_input \<Rightarrow> world \<Rightarrow> (error + account) \<times> world" where
  "addManual L accountData w =
     (if \<not> validateSecret L (secret accountData) then (Inl InvalidSecretKey, w)
      else addAccount L accountData w)"

text \<open>
  The manual tab of \<^verbatim>\<open>AddAccountModal\<close>: the form's fields and \<^verbatim>\<open>handleManualSubmit\<close>,
  which shows an error message or adds the account; an exception of \<^verbatim>\<open>addManual\<close> is
  caught and shown as the last message. The secret passed to \<^verbatim>\<open>addManual\<close> is the
  capital form of the stripped input. Were that capital form outside the alphabet of the
  model, \<^verbatim>\<open>addManual\<close> would reject it and the last message would be shown, which is the
  branch \<open>None\<close>; \<^verbatim>\<open>validateSecret\<close> has accepted the input at that point, so the branch
  is never taken.
\<close>

record manual_form =
  f_name :: string
  f_issuer :: string
  f_secret :: string
  f_type :: otp_type
  f_algorithm :: hash_algorithm
  f_digits :: nat
  f_period :: int

datatype form_outcome = ShowError string | Added

definition handleManualSubmit :: "ext \<Rightarrow> manual_form \<Rightarrow> world \<Rightarrow> form_outcome \<times> world" where
  "handleManualSubmit L form w =
     (if f_name form = [] \<or> f_secret form = []
      then (ShowError ''Name and secret are required'', w)
      else if \<not> validateSecret L (f_secret form)
      then (ShowError ''Invalid secret key. Must be Base32 encoded.'', w)
      else
        (case toUpperCase (removeWhitespace (f_secret form)) of
           None \<Rightarrow> (ShowError ''Failed to add account. Please try again.'', w)
         | Some normalized \<Rightarrow>
             (case addManual L
                     \<lparr>name = f_name form,
                      issuer = (if f_issuer form = [] then ''Unknown'' else f_issuer form),
                      secret = normalized,
                      otp_type = f_type form, algorithm = f_algorithm form,
                      digits = f_digits form, period = f_period form, counter = 0\<rparr> w of
                (Inl e, w1) \<Rightarrow> (ShowError ''Failed to add account. Please try again.'', w1)
              | (Inr _, w1) \<Rightarrow> (Added, w1))))"

section \<open>BiometricService\<close>

definition BIOMETRIC_KEY_STORAGE :: string where
  "BIOMETRIC_KEY_STORAGE = ''biometric_enabled''"

definition SESSION_KEY_STORAGE :: string where
  "SESSION_KEY_STORAGE = ''encrypted_session_key''"

text \<open>The native prompt is one interaction with the environment; without the Electron
  preload API there is no prompt and the answer is \<^verbatim>\<open>false\<close>.\<close>

definition authenticate :: "ext \<Rightarrow> string \<Rightarrow> world \<Rightarrow> bool \<times> world" where
  "authenticate L reason w =
     (if isElectron L then
        (case electron_biometric L of
           Some prompt \<Rightarrow> (prompt (tick w) reason, w\<lparr>tick := Suc (tick w)\<rparr>)
         | None \<Rightarrow> (False, w))
      else if isCapacitor L then (False, w)
      else (False, w))"

definition isEnabled :: "ext \<Rightarrow> world \<Rightarrow> bool" where
  "isEnabled L w = (getItem L BIOMETRIC_KEY_STORAGE w = Some ''true'')"

definition enable :: "ext \<Rightarrow> string \<Rightarrow> world \<Rightarrow> bool \<times> world" where
  "enable L masterPw w =
     (let (authenticated, w1) = authenticate L ''Enable biometric unlock'' w in
      if \<not> authenticated then (False, w1)
      else
        let (sessionKey, w2) = generateTransferKey L w1;
            (enc, w3) = encrypt L masterPw sessionKey None None w2;
            w4 = setItem L SESSION_KEY_STORAGE
                   (stringify_session L
                      \<lparr>s_encrypted = encrypted enc, s_salt = salt enc, s_iv = iv enc,
                       s_hmac = hmac enc, s_sessionKey = sessionKey\<rparr>) w3;
            w5 = setItem L BIOMETRIC_KEY_STORAGE ''true'' w4
        in (True, w5))"

definition disable :: "ext \<Rightarrow> world \<Rightarrow> world" where
  "disable L w = removeItem L SESSION_KEY_STORAGE (removeItem L BIOMETRIC_KEY_STORAGE w)"

definition unlock :: "ext \<Rightarrow> world \<Rightarrow> string option \<times> world" where
  "unlock L w =
     (if \<not> isEnabled L w then (None, w)
      else
        let (authenticated, w1) = authenticate L ''Unlock nAuth'' w in
        if \<not> authenticated then (None, w1)
        else
          (case getItem L SESSION_KEY_STORAGE w1 of
             None \<Rightarrow> (None, w1)
           | Some sessionData \<Rightarrow>
               if sessionData = [] then (None, w1)
               else
                 (case parse_session L sessionData of
                    None \<Rightarrow> (None, w1)
                  | Some sd \<Rightarrow>
                      (case decrypt L (s_encrypted sd) (s_sessionKey sd) (s_salt sd)
                              (s_iv sd) (s_hmac sd) of
                         Inl e \<Rightarrow> (None, w1)
                       | Inr masterPw \<Rightarrow> (Some masterPw, w1)))))"

definition updatePassword :: "ext \<Rightarrow> string \<Rightarrow> world \<Rightarrow> bool \<times> world" where
  "updatePassword L newPassword w =
     (if \<not> isEnabled L w then (True, w) else enable L newPassword (disable L w))"

section \<open>The account array as an object in a store\<close>

text \<open>
  \<^verbatim>\<open>VaultService.accounts\<close> holds a reference to an array, which \<^verbatim>\<open>push\<close> mutates in
  place and \<^verbatim>\<open>getAccounts\<close> copies with \<^verbatim>\<open>[...this.accounts]\<close>. Where aliasing matters
  the arrays live in a store from addresses to contents; \<open>r_next\<close> is the first
  address that is not allocated.
\<close>

record ref_world =
  r_arrays :: "nat \<rightharpoonup> account list"
  r_accounts :: nat
  r_isUnlocked :: bool
  r_next :: nat

definition array_at :: "ref_world \<Rightarrow> nat \<Rightarrow> account list" where
  "array_at rw a = (case r_arrays rw a of None \<Rightarrow> [] | Some xs \<Rightarrow> xs)"

text \<open>An array literal or a spread allocates a new array.\<close>

definition new_array :: "account list \<Rightarrow> ref_world \<Rightarrow> nat \<times> ref_world" where
  "new_array xs rw =
     (r_next rw, rw\<lparr>r_arrays := (r_arrays rw)(r_next rw \<mapsto> xs), r_next := Suc (r_next rw)\<rparr>)"

definition getAccounts_ref :: "ref_world \<Rightarrow> (error + nat) \<times> ref_world" where
  "getAccounts_ref rw =
     (if \<not> r_isUnlocked rw then (Inl VaultIsLocked, rw)
      else let (a, rw1) = new_array (array_at rw (r_accounts rw)) rw in (Inr a, rw1))"

text \<open>\<^verbatim>\<open>this.accounts.push(newAccount)\<close> in \<^verbatim>\<open>addAccount\<close>.\<close>

definition push_account_ref :: "account \<Rightarrow> ref_world \<Rightarrow> ref_world" where
  "push_account_ref x rw =
     rw\<lparr>r_arrays := (r_arrays rw)(r_accounts rw \<mapsto> array_at rw (r_accounts rw) @ [x])\<rparr>"

text \<open>\<^verbatim>\<open>this.accounts = []\<close> in \<^verbatim>\<open>lockVault\<close>.\<close>

definition lockVault_ref :: "ref_world \<Rightarrow> ref_world" where
  "lockVault_ref rw =
     (let (a, rw1) = new_array [] rw in rw1\<lparr>r_accounts := a, r_isUnlocked := False\<rparr>)"

text \<open>
  What a caller can do to an array it holds: any sequence of \<^verbatim>\<open>push\<close>, \<^verbatim>\<open>pop\<close>,
  \<^verbatim>\<open>splice\<close>, \<^verbatim>\<open>sort\<close>, \<^verbatim>\<open>reverse\<close> or index assignments replaces the contents at that
  address by some other list.
\<close>

definition mutate_array :: "nat \<Rightarrow> (account list \<Rightarrow> account list) \<Rightarrow> ref_world \<Rightarrow> ref_world" where
  "mutate_array a f rw = rw\<lparr>r_arrays := (r_arrays rw)(a \<mapsto> f (array_at rw a))\<rparr>"

text \<open>The vault's array is an allocated one.\<close>

definition ref_ok :: "ref_world \<Rightarrow> bool" where
  "ref_ok rw = (r_accounts rw < r_next rw)"

text \<open>The state the rest of the development works with.\<close>

definition abstract_accounts :: "ref_world \<Rightarrow> account list" where
  "abstract_accounts rw = array_at rw (r_accounts rw)"

text \<open>
  A caller of \<^verbatim>\<open>getAccounts\<close>: it calls \<^verbatim>\<open>getAccounts\<close> again, or changes the contents of
  an array it has been handed. The state records the arrays it holds and the contents
  each call returned.
\<close>

datatype caller_op = CallGetAccounts | Mutate nat "account list \<Rightarrow> account list"

fun caller_step ::
  "caller_op \<Rightarrow> nat set \<times> account list list \<times> ref_world \<Rightarrow> nat set \<times> account list list \<times> ref_world" where
  "caller_step CallGetAccounts (held, seen, rw) =
     (case getAccounts_ref rw of
        (Inr a, rw1) \<Rightarrow> (insert a held, seen @ [array_at rw1 a], rw1)
      | (Inl e, rw1) \<Rightarrow> (held, seen, rw1))"
| "caller_step (Mutate a f) (held, seen, rw) =
     (if a \<in> held then (held, seen, mutate_array a f rw) else (held, seen, rw))"

fun caller_run ::
  "caller_op list \<Rightarrow> nat set \<times> account list list \<times> ref_world \<Rightarrow> nat set \<times> account list list \<times> ref_world" where
  "caller_run [] s = s"
| "caller_run (x # xs) s = caller_run xs (caller_step x s)"

section \<open>Contracts of the libraries\<close>

text \<open>The salt and the IV \<^verbatim>\<open>encrypt\<close> works with: the caller's, or fresh random bytes.\<close>

definition saltUsed :: "ext \<Rightarrow> bytes option \<Rightarrow> world \<Rightarrow> bytes" where
  "saltUsed L salt_opt w = (case salt_opt of Some s \<Rightarrow> s | None \<Rightarrow> fst (generateSalt L w))"

definition ivUsed :: "ext \<Rightarrow> bytes option \<Rightarrow> bytes option \<Rightarrow> world \<Rightarrow> bytes" where
  "ivUsed L salt_opt iv_opt w =
     (case iv_opt of
        Some i \<Rightarrow> i
      | None \<Rightarrow> fst (generateIV L (case salt_opt of Some s \<Rightarrow> w | None \<Rightarrow> snd (generateSalt L w))))"

text \<open>
  What the code relies on from the libraries, at one plaintext, password, salt and IV:
  \<^verbatim>\<open>atob\<close> undoes \<^verbatim>\<open>btoa\<close> on the salt and on the IV, the Base64 encoder round-trips the
  ciphertext, and AES decryption followed by UTF-8 decoding undoes AES encryption of the
  plaintext under the same key and IV.
\<close>

definition library_roundtrip :: "ext \<Rightarrow> string \<Rightarrow> string \<Rightarrow> bytes \<Rightarrow> bytes \<Rightarrow> bool" where
  "library_roundtrip L P W saltBytes ivBytes =
     (atob L (btoa L (map fromCharCode saltBytes)) = Some (map fromCharCode saltBytes) \<and>
      atob L (btoa L (map fromCharCode ivBytes)) = Some (map fromCharCode ivBytes) \<and>
      (let key = toWordArray (deriveKey L W saltBytes);
           ivWordArray = toWordArray ivBytes;
           c = aes_encrypt L P key ivWordArray
       in enc_base64_parse L (enc_base64_stringify L c) = c \<and>
          enc_utf8_stringify L (aes_decrypt L c key ivWordArray) = Some P))"

definition decrypt_envelope :: "ext \<Rightarrow> envelope \<Rightarrow> string \<Rightarrow> error + string" where
  "decrypt_envelope L e W = decrypt L (encrypted e) W (salt e) (iv e) (hmac e)"

section \<open>Notions used in the statements\<close>

text \<open>The condition under which \<^verbatim>\<open>saveVault\<close> and \<^verbatim>\<open>exportVault\<close> do not answer
  \<^verbatim>\<open>Vault is locked\<close>: the flag is set and a non-empty master password is held.\<close>

definition vault_unlocked :: "world \<Rightarrow> bool" where
  "vault_unlocked w = (isUnlocked w \<and> truthy (masterPassword w))"

text \<open>The clock reading and the random suffix that \<^verbatim>\<open>generateId\<close> draws when it is called at
  interaction \<open>t\<close>, and the identifier it builds from them.\<close>

definition id_source :: "ext \<Rightarrow> nat \<Rightarrow> nat \<times> string" where
  "id_source L t = (date_now L t, substring 2 11 (math_random_36 L (Suc t)))"

definition id_at :: "ext \<Rightarrow> nat \<Rightarrow> string" where
  "id_at L t = decimal (fst (id_source L t)) @ ''-'' @ snd (id_source L t)"

text \<open>The account \<^verbatim>\<open>addAccount\<close> builds when it is called at interaction \<open>t\<close>: the identifier
  takes two interactions, each timestamp one.\<close>

definition created_account :: "ext \<Rightarrow> account_input \<Rightarrow> nat \<Rightarrow> account" where
  "created_account L a t =
     \<lparr>name = name a, issuer = issuer a, secret = secret a, otp_type = otp_type a,
      algorithm = algorithm a, digits = digits a, period = period a, counter = counter a,
      account_id = id_at L t, createdAt = date_now L (t + 2), updatedAt = date_now L (t + 3)\<rparr>"

text \<open>The identifiers in the vault are pairwise distinct, and none of them is one the
  environment will produce from now on.\<close>

definition ids_fresh :: "ext \<Rightarrow> world \<Rightarrow> bool" where
  "ids_fresh L w =
     (distinct (map account_id (accounts w)) \<and>
      (\<forall>a \<in> set (accounts w). \<forall>t \<ge> tick w. account_id a \<noteq> id_at L t))"

text \<open>The caller-supplied part of an account, and the pair \<^verbatim>\<open>importVault\<close> compares.\<close>

definition input_of :: "account \<Rightarrow> account_input" where
  "input_of a = \<lparr>name = name a, issuer = issuer a, secret = secret a, otp_type = otp_type a,
                 algorithm = algorithm a, digits = digits a, period = period a,
                 counter = counter a\<rparr>"

definition entry_key :: "account \<Rightarrow> string \<times> string" where
  "entry_key a = (issuer a, name a)"

text \<open>A sequence of operations that add accounts, each run whatever the previous one
  returned.\<close>

datatype vault_op = OpAddAccount account_input | OpImportVault string string

fun run_op :: "ext \<Rightarrow> vault_op \<Rightarrow> world \<Rightarrow> world" where
  "run_op L (OpAddAccount a) w = snd (addAccount L a w)"
| "run_op L (OpImportVault exportedData transferPassword) w =
     snd (importVault L exportedData transferPassword w)"

fun run_ops :: "ext \<Rightarrow> vault_op list \<Rightarrow> world \<Rightarrow> world" where
  "run_ops L [] w = w"
| "run_ops L (x # xs) w = run_ops L xs (run_op L x w)"

text \<open>The value of a decimal numeral, to read \<open>decimal\<close> back.\<close>

definition digit_val :: "char \<Rightarrow> nat" where
  "digit_val c = length (takeWhile (\<lambda>d. d \<noteq> c) ''0123456789'')"

definition decimal_val :: "string \<Rightarrow> nat" where
  "decimal_val s = foldl (\<lambda>a c. 10 * a + digit_val c) 0 s"

text \<open>The password \<^verbatim>\<open>exportVault\<close> encrypts with (\<^verbatim>\<open>transferPassword || this.masterPassword\<close>)
  and the object it serialises.\<close>

definition transfer_password :: "string option \<Rightarrow> string \<Rightarrow> string" where
  "transfer_password transferPassword mpw =
     (case transferPassword of None \<Rightarrow> mpw | Some tp \<Rightarrow> if tp = [] then mpw else tp)"

definition export_record :: "ext \<Rightarrow> string \<Rightarrow> world \<Rightarrow> export_data" where
  "export_record L password w =
     (let data = stringify_accounts L (accounts w);
          enc = fst (encrypt L data password None None w)
      in \<lparr>x_version = VAULT_VERSION, x_encryptedData = encrypted enc, x_salt = salt enc,
          x_iv = iv enc, x_hmac = hmac enc, x_checksum = createChecksum L data\<rparr>)"

text \<open>The object \<^verbatim>\<open>BiometricService.enable\<close> stores when the challenge succeeds: after the
  prompt, the session key is drawn, then the salt and the IV of the envelope.\<close>

definition session_record :: "ext \<Rightarrow> string \<Rightarrow> world \<Rightarrow> session_data" where
  "session_record L masterPw w =
     (let w1 = w\<lparr>tick := Suc (tick w)\<rparr>;
          sessionKey = fst (generateTransferKey L w1);
          enc = fst (encrypt L masterPw sessionKey None None (snd (generateTransferKey L w1)))
      in \<lparr>s_encrypted = encrypted enc, s_salt = salt enc, s_iv = iv enc, s_hmac = hmac enc,
          s_sessionKey = sessionKey\<rparr>)"

section \<open>A small instance of the libraries\<close>

text \<open>
  An executable stand-in for the external libraries, on which the statements below are
  evaluated: the cipher reverses the text, the key derivation pads password and salt, the
  MAC is the key followed by the head of the message, and the encoders write one
  character per word. JSON is a list of fields, each closed by a bar; lists of accounts
  are recognised from a table.
\<close>

definition toy_chars :: "wordarray \<Rightarrow> string" where
  "toy_chars wa = map (\<lambda>x. fromCharCode (ucast x)) (words wa)"

definition toy_words :: "string \<Rightarrow> wordarray" where
  "toy_words s = \<lparr>words = map (\<lambda>c. ucast (charCodeAt c)) s, sigBytes = length s\<rparr>"

fun toy_split :: "char \<Rightarrow> string \<Rightarrow> string list" where
  "toy_split sep [] = [[]]"
| "toy_split sep (c # cs) =
     (if c = sep then [] # toy_split sep cs
      else (case toy_split sep cs of [] \<Rightarrow> [[c]] | x # xs \<Rightarrow> (c # x) # xs))"

definition toy_join :: "string list \<Rightarrow> string" where
  "toy_join xs = concat (map (\<lambda>x. x @ ''|'') xs)"

definition acc_github :: account where
  "acc_github = \<lparr>name = ''alice'', issuer = ''GitHub'', secret = ''JBSWY3DPEHPK3PXP'',
     otp_type = TOTP, algorithm = SHA1, digits = 6, period = 30, counter = 0,
     account_id = ''1-a'', createdAt = 1, updatedAt = 1\<rparr>"

definition acc_gitlab :: account where
  "acc_gitlab = \<lparr>name = ''bob'', issuer = ''GitLab'', secret = ''MFRGGZDFMZTWQ2LK'',
     otp_type = TOTP, algorithm = SHA256, digits = 8, period = 60, counter = 0,
     account_id = ''2-b'', createdAt = 2, updatedAt = 2\<rparr>"

definition acc_mail :: account where
  "acc_mail = \<lparr>name = ''carol'', issuer = ''Mail'', secret = ''KRSXG5A='',
     otp_type = HOTP, algorithm = SHA1, digits = 6, period = 30, counter = 7,
     account_id = ''3-c'', createdAt = 3, updatedAt = 4\<rparr>"

definition toy_stringify_accounts :: "account list \<Rightarrow> string" where
  "toy_stringify_accounts accs =
     ''['' @ concat (map (\<lambda>a. issuer a @ '':'' @ name a @ ''#'' @ account_id a @ '','') accs) @ '']''"

definition toy_account_lists :: "account list list" where
  "toy_account_lists = [[], [acc_github], [acc_github, acc_gitlab, acc_mail]]"

definition toy_parse_accounts :: "string \<Rightarrow> account list option" where
  "toy_parse_accounts s = map_of (map (\<lambda>v. (toy_stringify_accounts v, v)) toy_account_lists) s"

definition toy_ext :: ext where
  "toy_ext = \<lparr>
     text_encode = map charCodeAt,
     pbkdf2 = (\<lambda>pw slt iterations h bits.
                 take (bits div 8) (pw @ slt @ replicate (bits div 8) (charCodeAt CHR ''x''))),
     aes_encrypt = (\<lambda>d k i. toy_words (rev d)),
     aes_decrypt = (\<lambda>c k i. \<lparr>words = rev (words c), sigBytes = sigBytes c\<rparr>),
     hmac_sha256 = (\<lambda>m k. \<lparr>words = words k @ words (toy_words (take 4 m)), sigBytes = 32\<rparr>),
     sha256 = (\<lambda>d. toy_words (rev d)),
     enc_hex = toy_chars,
     enc_base64_stringify = toy_chars,
     enc_base64_parse = toy_words,
     enc_utf8_stringify =
       (\<lambda>wa. if sigBytes wa = length (words wa) then Some (toy_chars wa) else None),
     btoa = (\<lambda>s. s),
     atob = (\<lambda>s. if list_ex (\<lambda>c. c = CHR ''!'') s then None else Some s),
     stringify_accounts = toy_stringify_accounts,
     parse_accounts = toy_parse_accounts,
     stringify_vault = (\<lambda>v. toy_join [v_version v, v_salt v, v_iv v, v_data v, v_hmac v]),
     parse_vault =
       (\<lambda>s. case toy_split (CHR ''|'') s of
               [a, b, c, d, e, r] \<Rightarrow>
                 Some \<lparr>v_version = a, v_salt = b, v_iv = c, v_data = d, v_hmac = e\<rparr>
             | _ \<Rightarrow> None),
     stringify_export =
       (\<lambda>x. toy_join [x_version x, x_encryptedData x, x_salt x, x_iv x, x_hmac x, x_checksum x]),
     parse_export =
       (\<lambda>s. case toy_split (CHR ''|'') s of
               [a, b, c, d, e, f, r] \<Rightarrow>
                 Some \<lparr>x_version = a, x_encryptedData = b, x_salt = c, x_iv = d, x_hmac = e,
                       x_checksum = f\<rparr>
             | _ \<Rightarrow> None),
     stringify_session =
       (\<lambda>x. toy_join [s_encrypted x, s_salt x, s_iv x, s_hmac x, s_sessionKey x]),
     parse_session =
       (\<lambda>s. case toy_split (CHR ''|'') s of
               [a, b, c, d, e, r] \<Rightarrow>
                 Some \<lparr>s_encrypted = a, s_salt = b, s_iv = c, s_hmac = d, s_sessionKey = e\<rparr>
             | _ \<Rightarrow> None),
     otpauth_totp = (\<lambda>s. True),
     date_now = (\<lambda>t. 1700000000000 + t),
     math_random_36 = (\<lambda>t. ''0.k3x9'' @ decimal t),
     random_byte = (\<lambda>t i. charCodeAt (if even (t + i) then CHR ''s'' else CHR ''t'')),
     isElectron = True,
     isCapacitor = False,
     electron_storage = True,
     electron_biometric = Some (\<lambda>t reason. True)\<rparr>"

definition toy_world :: world where
  "toy_world = \<lparr>masterPassword = None, accounts = [], isUnlocked = False,
     localStorage = Map.empty, electronStore = Map.empty, tick = 0\<rparr>"

definition toy_created :: world where
  "toy_created = snd (createVault toy_ext ''correct-horse-battery'' toy_world)"

definition toy_locked :: world where
  "toy_locked = lockVault toy_created"

definition toy_ref_world :: ref_world where
  "toy_ref_world = \<lparr>r_arrays = [0 \<mapsto> [acc_github, acc_gitlab]], r_accounts = 0,
                     r_isUnlocked = True, r_next = 1\<rparr>"

definition toy_frozen :: ext where
  "toy_frozen = toy_ext\<lparr>date_now := (\<lambda>t. 1700000000000), math_random_36 := (\<lambda>t. ''0.k3x9q1z7m2'')\<rparr>"

definition input_github :: account_input where
  "input_github = \<lparr>name = ''alice'', issuer = ''GitHub'', secret = ''JBSWY3DPEHPK3PXP'',
     otp_type = TOTP, algorithm = SHA1, digits = 6, period = 30, counter = 0\<rparr>"

definition input_gitlab :: account_input where
  "input_gitlab = \<lparr>name = ''bob'', issuer = ''GitLab'', secret = ''MFRGGZDFMZTWQ2LK'',
     otp_type = TOTP, algorithm = SHA256, digits = 8, period = 60, counter = 0\<rparr>"

definition acc_github_old :: account where
  "acc_github_old = \<lparr>name = ''alice'', issuer = ''GitHub'', secret = ''ORSXG5DJNZTQ===='',
     otp_type = TOTP, algorithm = SHA1, digits = 6, period = 30, counter = 0,
     account_id = ''0-z'', createdAt = 0, updatedAt = 0\<rparr>"

definition toy_dest :: world where
  "toy_dest = toy_created\<lparr>accounts := [acc_github_old]\<rparr>"

definition toy_plain :: string where
  "toy_plain = ''[GitHub:alice#1-a,GitLab:bob#2-b,Mail:carol#3-c,]''"

definition toy_export :: export_data where
  "toy_export = \<lparr>x_version = ''1.0.0'',
     x_encryptedData = ''],c-3#lorac:liaM,b-2#bob:baLtiG,a-1#ecila:buHtiG['',
     x_salt = ''stststststststst'', x_iv = ''tstststststststs'',
     x_hmac = ''transferststststststststxxxxxxxx],c-'', x_checksum = ''],c-3#lo''\<rparr>"

definition toy_payload :: string where
  "toy_payload = toy_join [x_version toy_export, x_encryptedData toy_export, x_salt toy_export,
     x_iv toy_export, x_hmac toy_export, x_checksum toy_export]"

definition toy_source :: world where
  "toy_source = toy_created\<lparr>accounts := [acc_github, acc_gitlab, acc_mail]\<rparr>"

definition toy_export_bad :: export_data where
  "toy_export_bad = toy_export\<lparr>x_checksum := ''00000000''\<rparr>"

definition toy_payload_bad :: string where
  "toy_payload_bad = toy_join [x_version toy_export_bad, x_encryptedData toy_export_bad,
     x_salt toy_export_bad, x_iv toy_export_bad, x_hmac toy_export_bad,
     x_checksum toy_export_bad]"

definition toy_refusing :: ext where
  "toy_refusing = toy_ext\<lparr>electron_biometric := Some (\<lambda>t reason. False)\<rparr>"

definition input_spaced :: account_input where
  "input_spaced = \<lparr>name = ''alice'', issuer = ''GitHub'', secret = ''jbsw y3dp ehpk 3pxp'',
     otp_type = TOTP, algorithm = SHA1, digits = 6, period = 30, counter = 0\<rparr>"

definition toy_form :: manual_form where
  "toy_form = \<lparr>f_name = ''alice'', f_issuer = ''GitHub'', f_secret = ''jbsw y3dp ehpk 3pxp'',
     f_type = TOTP, f_algorithm = SHA1, f_digits = 6, f_period = 30\<rparr>"

definition toy_form_sharp :: manual_form where
  "toy_form_sharp = \<lparr>f_name = ''bob'', f_issuer = [], f_secret = [CHR ''j'', CHR 0xDF, CHR ''2''],
     f_type = TOTP, f_algorithm = SHA1, f_digits = 6, f_period = 30\<rparr>"

definition toy_unkeyed :: world where
  "toy_unkeyed = snd (createVault toy_ext [] toy_world)"

section \<open>Auxiliary facts\<close>

lemma unat_byte_less: "unat (b :: byte) < 256"
  using unsigned_less [of b] by simp

lemma charCodeAt_fromCharCode: "charCodeAt (fromCharCode b) = b"
  using unat_byte_less [of b]
  by (simp add: charCodeAt_def fromCharCode_def)

lemma fromCharCode_charCodeAt: "fromCharCode (charCodeAt c) = c"
  by (simp add: charCodeAt_def fromCharCode_def unat_of_nat take_bit_nat_eq_self)

lemma byte_via_word32: "ucast (ucast (b :: byte) :: 32 word) = b"
  by (rule bit_word_eqI) (auto simp add: bit_simps dest: bit_imp_le_length)

lemma map_charCodeAt_fromCharCode: "map charCodeAt (map fromCharCode bs) = bs"
  by (induction bs) (simp_all add: charCodeAt_fromCharCode)

lemma base64_transport:
  "atob L (btoa L (map fromCharCode bs)) = Some (map fromCharCode bs) \<Longrightarrow>
   base64ToUint8Array L (arrayBufferToBase64 L bs) = Inr bs"
  using map_charCodeAt_fromCharCode [of bs]
  by (simp add: base64ToUint8Array_def arrayBufferToBase64_def del: map_map)

lemma encrypt_fst:
  "fst (encrypt L P W so io w) =
     (let saltBytes = saltUsed L so w; ivBytes = ivUsed L so io w;
          key = toWordArray (deriveKey L W saltBytes);
          c = aes_encrypt L P key (toWordArray ivBytes)
      in \<lparr>encrypted = enc_base64_stringify L c,
          salt = arrayBufferToBase64 L saltBytes,
          iv = arrayBufferToBase64 L ivBytes,
          hmac = enc_hex L (hmac_sha256 L (enc_hex L c) key)\<rparr>)"
  by (simp add: encrypt_def saltUsed_def ivUsed_def Let_def split: option.splits prod.splits)

text \<open>What decrypting a fresh envelope with the same password gives, whatever the plaintext.\<close>

lemma decrypt_encrypt_general:
  assumes "library_roundtrip L P W (saltUsed L so w) (ivUsed L so io w)"
  shows "decrypt_envelope L (fst (encrypt L P W so io w)) W =
           (if P = [] then Inl DecryptionFailed else Inr P)"
  using assms
  by (simp add: decrypt_envelope_def encrypt_fst Let_def decrypt_def computedHmac_def
        library_roundtrip_def base64_transport)

lemmas toy_simps = toy_ext_def toy_world_def toy_chars_def toy_words_def toy_join_def
  toy_stringify_accounts_def toy_parse_accounts_def toy_account_lists_def
  acc_github_def acc_gitlab_def acc_mail_def fromCharCode_charCodeAt byte_via_word32

lemmas enc_simps = saltUsed_def ivUsed_def generateSalt_def generateIV_def getRandomValues_def
  library_roundtrip_def toWordArray_def deriveKey_def
  KEY_LENGTH_def PBKDF2_ITERATIONS_def encrypt_def decrypt_def decrypt_envelope_def
  computedHmac_def arrayBufferToBase64_def base64ToUint8Array_def

lemmas vault_simps = createVault_def saveVault_def initialize_def getItem_def setItem_def
  removeItem_def VAULT_KEY_def VAULT_VERSION_def STORAGE_PREFIX_def unlockVault_def
  unlockVault_try_def lockVault_def truthy_def

lemmas toy_eval = toy_created_def toy_locked_def toy_simps enc_simps vault_simps upt_rec Let_def split_def

lemma digit_cases:
  assumes "d < (10::nat)"
  shows "d = 0 \<or> d = 1 \<or> d = 2 \<or> d = 3 \<or> d = 4 \<or> d = 5 \<or> d = 6 \<or> d = 7 \<or> d = 8 \<or> d = 9"
  using assms by arith

lemma digit_val_digit_char:
  assumes "d < 10"
  shows "digit_val (digit_char d) = d"
  using digit_cases [OF assms]
  by (elim disjE) (simp_all add: digit_val_def digit_char_def)

lemma digit_char_not_dash:
  assumes "d < 10"
  shows "digit_char d \<noteq> CHR ''-''"
  using digit_cases [OF assms]
  by (elim disjE) (simp_all add: digit_char_def)

lemma decimal_val_snoc: "decimal_val (xs @ [c]) = 10 * decimal_val xs + digit_val c"
  by (simp add: decimal_val_def)

lemma decimal_val_decimal: "decimal_val (decimal n) = n"
proof (induction n rule: decimal.induct)
  case (1 n)
  show ?case
  proof (cases "n < 10")
    case True
    then have "decimal n = [digit_char n]"
      by (subst decimal.simps) simp
    with True show ?thesis
      by (simp add: decimal_val_def digit_val_digit_char)
  next
    case False
    then have "decimal n = decimal (n div 10) @ [digit_char (n mod 10)]"
      by (subst decimal.simps) simp
    moreover have "decimal_val (decimal (n div 10)) = n div 10"
      using False "1.IH" by simp
    moreover have "digit_val (digit_char (n mod 10)) = n mod 10"
      by (rule digit_val_digit_char) simp
    ultimately have "decimal_val (decimal n) = 10 * (n div 10) + n mod 10"
      by (simp only: decimal_val_snoc)
    then show ?thesis by simp
  qed
qed

lemma decimal_inject:
  assumes "decimal n = decimal m"
  shows "n = m"
proof -
  have "decimal_val (decimal n) = decimal_val (decimal m)"
    using assms by (rule arg_cong)
  then show ?thesis by (simp only: decimal_val_decimal)
qed

lemma dash_not_in_decimal: "CHR ''-'' \<notin> set (decimal n)"
proof (induction n rule: decimal.induct)
  case (1 n)
  show ?case
  proof (cases "n < 10")
    case True
    then have "decimal n = [digit_char n]"
      by (subst decimal.simps) simp
    with True show ?thesis using digit_char_not_dash [of n] by simp
  next
    case False
    then have "decimal n = decimal (n div 10) @ [digit_char (n mod 10)]"
      by (subst decimal.simps) simp
    moreover have "CHR ''-'' \<notin> set (decimal (n div 10))"
      using False "1.IH" by simp
    moreover have "digit_char (n mod 10) \<noteq> CHR ''-''"
      by (rule digit_char_not_dash) simp
    ultimately show ?thesis by auto
  qed
qed

lemma takeWhile_separator:
  "c \<notin> set xs \<Longrightarrow> takeWhile (\<lambda>x. x \<noteq> c) (xs @ c # ys) = xs"
  by (induction xs) auto

lemma split_at_separator:
  assumes "xs @ c # ys = xs' @ c # ys'" and "c \<notin> set xs" and "c \<notin> set xs'"
  shows "xs = xs' \<and> ys = ys'"
proof -
  have "takeWhile (\<lambda>x. x \<noteq> c) (xs @ c # ys) = xs"
    using assms(2) by (rule takeWhile_separator)
  moreover have "takeWhile (\<lambda>x. x \<noteq> c) (xs' @ c # ys') = xs'"
    using assms(3) by (rule takeWhile_separator)
  ultimately have "xs = xs'" using assms(1) by simp
  with assms(1) show ?thesis by simp
qed

text \<open>The identifier determines the clock reading and the random suffix it was built from.\<close>

lemma id_at_inject: "id_at L t = id_at L t' \<Longrightarrow> id_source L t = id_source L t'"
proof -
  assume eq: "id_at L t = id_at L t'"
  have "decimal (fst (id_source L t)) = decimal (fst (id_source L t')) \<and>
        snd (id_source L t) = snd (id_source L t')"
    using eq dash_not_in_decimal
    by (intro split_at_separator [where c = "CHR ''-''"]) (simp_all add: id_at_def)
  then show ?thesis
    by (auto dest: decimal_inject simp add: prod_eq_iff)
qed


section \<open>Frame and progress facts\<close>

lemma setItem_frame [simp]:
  "accounts (setItem L k v w) = accounts w"
  "masterPassword (setItem L k v w) = masterPassword w"
  "isUnlocked (setItem L k v w) = isUnlocked w"
  "tick (setItem L k v w) = tick w"
  by (simp_all add: setItem_def Let_def)

lemma encrypt_snd_fresh: "snd (encrypt L P W None None w) = w\<lparr>tick := tick w + 2\<rparr>"
  by (simp add: encrypt_def generateSalt_def generateIV_def getRandomValues_def Let_def split_def)

lemma saveVault_fst: "vault_unlocked w \<Longrightarrow> fst (saveVault L w) = Inr ()"
  by (auto simp add: saveVault_def vault_unlocked_def truthy_def Let_def split_def
        split: option.splits)

lemma saveVault_frame:
  "accounts (snd (saveVault L w)) = accounts w"
  "masterPassword (snd (saveVault L w)) = masterPassword w"
  "isUnlocked (snd (saveVault L w)) = isUnlocked w"
  "tick w \<le> tick (snd (saveVault L w))"
  by (simp_all add: saveVault_def Let_def split_def encrypt_snd_fresh split: option.splits)

lemma saveVault_tick: "vault_unlocked w \<Longrightarrow> tick (snd (saveVault L w)) = tick w + 2"
  by (auto simp add: saveVault_def vault_unlocked_def truthy_def Let_def split_def
        encrypt_snd_fresh split: option.splits)

lemma generateId_eq: "generateId L w = (id_at L (tick w), w\<lparr>tick := tick w + 2\<rparr>)"
  by (simp add: generateId_def dateNow_def mathRandom36_def id_at_def id_source_def Let_def)

text \<open>The state in which \<^verbatim>\<open>addAccount\<close> calls \<^verbatim>\<open>saveVault\<close>.\<close>

lemma addAccount_eq:
  "isUnlocked w \<Longrightarrow>
   addAccount L a w =
     (case saveVault L (w\<lparr>tick := tick w + 4,
                           accounts := accounts w @ [created_account L a (tick w)]\<rparr>) of
        (Inl e, w5) \<Rightarrow> (Inl e, w5)
      | (Inr u, w5) \<Rightarrow> (Inr (created_account L a (tick w)), w5))"
proof -
  have arith: "tick w + 4 = Suc (Suc (Suc (Suc (tick w))))" "tick w + 3 = Suc (Suc (Suc (tick w)))"
    "tick w + 2 = Suc (Suc (tick w))"
    by simp_all
  assume "isUnlocked w"
  then show ?thesis
    by (simp add: addAccount_def generateId_eq dateNow_def created_account_def Let_def arith
          split: prod.splits sum.splits)
qed

lemma addAccount_proj:
  assumes "isUnlocked w"
  shows "fst (addAccount L a w) =
           (case fst (saveVault L (w\<lparr>tick := tick w + 4,
                        accounts := accounts w @ [created_account L a (tick w)]\<rparr>)) of
              Inl e \<Rightarrow> Inl e
            | Inr u \<Rightarrow> Inr (created_account L a (tick w)))"
    and "snd (addAccount L a w) =
           snd (saveVault L (w\<lparr>tick := tick w + 4,
                  accounts := accounts w @ [created_account L a (tick w)]\<rparr>))"
proof -
  let ?w4 = "w\<lparr>tick := tick w + 4, accounts := accounts w @ [created_account L a (tick w)]\<rparr>"
  obtain r w5 where sv: "saveVault L ?w4 = (r, w5)" by (cases "saveVault L ?w4")
  show "fst (addAccount L a w) =
           (case fst (saveVault L ?w4) of
              Inl e \<Rightarrow> Inl e
            | Inr u \<Rightarrow> Inr (created_account L a (tick w)))"
    by (cases r) (simp_all add: addAccount_eq [OF assms] sv)
  show "snd (addAccount L a w) = snd (saveVault L ?w4)"
    by (cases r) (simp_all add: addAccount_eq [OF assms] sv)
qed

lemma addAccount_locked: "\<not> isUnlocked w \<Longrightarrow> addAccount L a w = (Inl VaultIsLocked, w)"
  by (simp add: addAccount_def)

lemma addAccount_frame:
  "masterPassword (snd (addAccount L a w)) = masterPassword w"
  "isUnlocked (snd (addAccount L a w)) = isUnlocked w"
  "tick w \<le> tick (snd (addAccount L a w))"
proof -
  let ?w4 = "w\<lparr>tick := tick w + 4, accounts := accounts w @ [created_account L a (tick w)]\<rparr>"
  have eq: "isUnlocked w \<Longrightarrow> snd (addAccount L a w) = snd (saveVault L ?w4)"
    by (rule addAccount_proj)
  show "masterPassword (snd (addAccount L a w)) = masterPassword w"
    by (cases "isUnlocked w") (simp_all add: eq saveVault_frame addAccount_locked)
  show "isUnlocked (snd (addAccount L a w)) = isUnlocked w"
    by (cases "isUnlocked w") (simp_all add: eq saveVault_frame addAccount_locked)
  show "tick w \<le> tick (snd (addAccount L a w))"
    using saveVault_frame(4) [of ?w4 L]
    by (cases "isUnlocked w") (simp_all add: eq addAccount_locked)
qed

lemma addAccount_accounts:
  "isUnlocked w \<Longrightarrow>
   accounts (snd (addAccount L a w)) = accounts w @ [created_account L a (tick w)] \<and>
   tick w + 4 \<le> tick (snd (addAccount L a w))"
proof -
  let ?w4 = "w\<lparr>tick := tick w + 4, accounts := accounts w @ [created_account L a (tick w)]\<rparr>"
  assume u: "isUnlocked w"
  then have eq: "snd (addAccount L a w) = snd (saveVault L ?w4)"
    by (rule addAccount_proj)
  show ?thesis
    using saveVault_frame(4) [of ?w4 L] by (simp add: eq saveVault_frame)
qed

lemma addAccount_unlocked:
  assumes "vault_unlocked w"
  shows "fst (addAccount L a w) = Inr (created_account L a (tick w))"
    and "vault_unlocked (snd (addAccount L a w))"
    and "tick (snd (addAccount L a w)) = tick w + 6"
proof -
  let ?w4 = "w\<lparr>tick := tick w + 4, accounts := accounts w @ [created_account L a (tick w)]\<rparr>"
  have u: "isUnlocked w" using assms by (simp add: vault_unlocked_def)
  have v4: "vault_unlocked ?w4" using assms by (simp add: vault_unlocked_def)
  have f: "fst (saveVault L ?w4) = Inr ()" using v4 by (rule saveVault_fst)
  show "fst (addAccount L a w) = Inr (created_account L a (tick w))"
    using f by (simp add: addAccount_proj [OF u])
  have eq: "snd (addAccount L a w) = snd (saveVault L ?w4)"
    using u by (rule addAccount_proj)
  show "vault_unlocked (snd (addAccount L a w))"
    using assms by (simp add: eq vault_unlocked_def saveVault_frame)
  show "tick (snd (addAccount L a w)) = tick w + 6"
    using saveVault_tick [OF v4, of L] by (simp add: eq)
qed

section \<open>Identifiers stay distinct while the environment does not repeat itself\<close>

lemma ids_fresh_addAccount:
  assumes inj: "inj_on (id_source L) {t0..}" and t0: "t0 \<le> tick w" and ok: "ids_fresh L w"
  shows "ids_fresh L (snd (addAccount L a w))"
proof (cases "isUnlocked w")
  case False
  then show ?thesis using ok by (simp add: addAccount_locked)
next
  case True
  let ?w' = "snd (addAccount L a w)"
  have acc: "accounts ?w' = accounts w @ [created_account L a (tick w)]"
    and tk: "tick w + 4 \<le> tick ?w'"
    using addAccount_accounts [OF True, of L a] by simp_all
  have new_id: "account_id (created_account L a (tick w)) = id_at L (tick w)"
    by (simp add: created_account_def)
  have later: "id_at L (tick w) \<noteq> id_at L t" if "tick ?w' \<le> t" for t
  proof
    assume "id_at L (tick w) = id_at L t"
    then have "id_source L (tick w) = id_source L t" by (rule id_at_inject)
    moreover have "t \<in> {t0..}" "tick w \<in> {t0..}" using that tk t0 by simp_all
    ultimately have "tick w = t" using inj by (simp add: inj_on_def)
    with that tk show False by simp
  qed
  have "\<forall>x \<in> set (accounts w). \<forall>t \<ge> tick w. account_id x \<noteq> id_at L t"
    using ok by (simp add: ids_fresh_def)
  then have old_new: "\<forall>x \<in> set (accounts w). id_at L (tick w) \<noteq> account_id x"
    by (metis order_refl)
  have old_later: "\<forall>x \<in> set (accounts w). \<forall>t \<ge> tick ?w'. account_id x \<noteq> id_at L t"
    using ok tk by (simp add: ids_fresh_def)
  have new_later: "\<forall>t \<ge> tick ?w'. id_at L (tick w) \<noteq> id_at L t"
    using later by simp
  have d: "distinct (map account_id (accounts ?w'))"
    using ok old_new by (auto simp add: ids_fresh_def acc new_id)
  have f: "\<forall>x \<in> set (accounts ?w'). \<forall>t \<ge> tick ?w'. account_id x \<noteq> id_at L t"
    using old_later new_later by (simp add: acc new_id)
  from d f show ?thesis by (simp add: ids_fresh_def)
qed

lemma ids_fresh_import_loop:
  assumes inj: "inj_on (id_source L) {t0..}"
  shows "t0 \<le> tick w \<Longrightarrow> ids_fresh L w \<Longrightarrow>
         ids_fresh L (snd (import_loop L incoming n w)) \<and>
         tick w \<le> tick (snd (import_loop L incoming n w))"
proof (induction incoming arbitrary: n w)
  case Nil
  then show ?case by simp
next
  case (Cons b rest)
  let ?a = "\<lparr>name = name b, issuer = issuer b, secret = secret b, otp_type = otp_type b,
             algorithm = algorithm b, digits = digits b, period = period b,
             counter = counter b\<rparr>"
  let ?w1 = "snd (addAccount L ?a w)"
  have f1: "ids_fresh L ?w1"
    using inj Cons.prems by (rule ids_fresh_addAccount)
  have t1: "tick w \<le> tick ?w1" by (rule addAccount_frame)
  then have t01: "t0 \<le> tick ?w1" using Cons.prems(1) by simp
  show ?case
  proof (cases "list_ex (\<lambda>acc. issuer acc = issuer b \<and> name acc = name b) (accounts w)")
    case True
    then show ?thesis using Cons.IH [OF Cons.prems] by simp
  next
    case False
    show ?thesis
    proof (cases "fst (addAccount L ?a w)")
      case (Inl e)
      then show ?thesis using False f1 t1
        by (simp add: split_def split: prod.splits sum.splits)
    next
      case (Inr x)
      then show ?thesis
        using False Cons.IH [OF t01 f1, of "n + 1"] t1
        by (simp add: split_def split: prod.splits sum.splits)
    qed
  qed
qed

lemma ids_fresh_importVault:
  assumes inj: "inj_on (id_source L) {t0..}" and t0: "t0 \<le> tick w" and ok: "ids_fresh L w"
  shows "ids_fresh L (snd (importVault L payload tp w)) \<and>
         tick w \<le> tick (snd (importVault L payload tp w))"
proof -
  have tr: "importVault_try L payload tp w = (fst (importVault_try L payload tp w), w) \<or>
             (\<exists>incoming. importVault_try L payload tp w = import_loop L incoming 0 w)"
    by (auto simp add: importVault_try_def split: option.splits sum.splits)
  have "snd (importVault L payload tp w) =
          (if isUnlocked w then snd (importVault_try L payload tp w) else w)"
    by (simp add: importVault_def split: prod.splits sum.splits)
  then have "snd (importVault L payload tp w) = w \<or>
        (\<exists>incoming. snd (importVault L payload tp w) = snd (import_loop L incoming 0 w))"
    using tr by (metis snd_conv)
  then show ?thesis
    using ids_fresh_import_loop [OF inj t0 ok] ok by auto
qed

lemma ids_fresh_run_op:
  assumes inj: "inj_on (id_source L) {t0..}" and t0: "t0 \<le> tick w" and ok: "ids_fresh L w"
  shows "ids_fresh L (run_op L x w) \<and> tick w \<le> tick (run_op L x w)"
proof (cases x)
  case (OpAddAccount a)
  then show ?thesis
    using ids_fresh_addAccount [OF inj t0 ok, of a] addAccount_frame(3) [of w L a] by simp
next
  case (OpImportVault payload tp)
  then show ?thesis
    using ids_fresh_importVault [OF inj t0 ok, of payload tp] by simp
qed

lemma ids_fresh_run_ops:
  assumes inj: "inj_on (id_source L) {t0..}"
  shows "t0 \<le> tick w \<Longrightarrow> ids_fresh L w \<Longrightarrow> ids_fresh L (run_ops L xs w)"
proof (induction xs arbitrary: w)
  case Nil
  then show ?case by simp
next
  case (Cons x xs)
  have "ids_fresh L (run_op L x w) \<and> tick w \<le> tick (run_op L x w)"
    using inj Cons.prems by (rule ids_fresh_run_op)
  then show ?case using Cons.IH [of "run_op L x w"] Cons.prems(1) by simp
qed

lemma createVault_snd:
  "\<not> initialize L w \<Longrightarrow>
   snd (createVault L pw w) =
     snd (saveVault L (w\<lparr>masterPassword := Some pw, accounts := [], isUnlocked := True\<rparr>))"
  by (simp add: createVault_def)

lemma toy_not_initialized: "\<not> initialize toy_ext toy_world"
  by (simp add: initialize_def getItem_def toy_ext_def toy_world_def)

lemma toy_created_fields:
  "masterPassword toy_created = Some ''correct-horse-battery''"
  "accounts toy_created = []"
  "isUnlocked toy_created"
  "tick toy_created = 2"
  "vault_unlocked toy_created"
proof -
  let ?w = "toy_world\<lparr>masterPassword := Some ''correct-horse-battery'', accounts := [],
                        isUnlocked := True\<rparr>"
  have eq: "toy_created = snd (saveVault toy_ext ?w)"
    unfolding toy_created_def using toy_not_initialized by (rule createVault_snd)
  have v: "vault_unlocked ?w" by (simp add: vault_unlocked_def truthy_def)
  show "masterPassword toy_created = Some ''correct-horse-battery''"
    by (simp add: eq saveVault_frame)
  show "accounts toy_created = []" by (simp add: eq saveVault_frame)
  show "isUnlocked toy_created" by (simp add: eq saveVault_frame)
  show "tick toy_created = 2" using saveVault_tick [OF v, of toy_ext] by (simp add: eq toy_world_def)
  show "vault_unlocked toy_created"
    by (simp add: vault_unlocked_def truthy_def eq saveVault_frame)
qed

lemma two_adds:
  assumes "vault_unlocked w"
  shows "accounts (run_ops L [OpAddAccount a, OpAddAccount b] w) =
           accounts w @ [created_account L a (tick w), created_account L b (tick w + 6)]"
proof -
  let ?w1 = "snd (addAccount L a w)"
  have u: "isUnlocked w" using assms by (simp add: vault_unlocked_def)
  have v1: "vault_unlocked ?w1" and t1: "tick ?w1 = tick w + 6"
    using addAccount_unlocked [OF assms, of L a] by simp_all
  have u1: "isUnlocked ?w1" using v1 by (simp add: vault_unlocked_def)
  show ?thesis
    using addAccount_accounts [OF u, of L a] addAccount_accounts [OF u1, of L b]
    by (simp add: t1)
qed

lemmas id_simps = created_account_def id_at_def id_source_def substring_def decimal.simps
  digit_char_def

section \<open>The import loop\<close>

lemma list_ex_entry_key:
  "list_ex (\<lambda>acc. issuer acc = issuer b \<and> name acc = name b) xs
     \<longleftrightarrow> entry_key b \<in> entry_key ` set xs"
  unfolding list_ex_iff entry_key_def image_iff by (simp add: prod_eq_iff) metis

lemma input_of_created [simp]: "input_of (created_account L a t) = a"
  by (simp add: input_of_def created_account_def)

lemma entry_key_created [simp]:
  "entry_key (created_account L (input_of b) t) = entry_key b"
  by (simp add: entry_key_def created_account_def input_of_def)

lemma import_loop_step:
  "import_loop L (b # rest) n w =
     (if entry_key b \<in> entry_key ` set (accounts w) then import_loop L rest n w
      else (case addAccount L (input_of b) w of
              (Inl e, w1) \<Rightarrow> (Inl e, w1)
            | (Inr u, w1) \<Rightarrow> import_loop L rest (n + 1) w1))"
  by (simp add: list_ex_entry_key input_of_def)

text \<open>What the loop of \<^verbatim>\<open>importVault\<close> does to an unlocked vault.\<close>

lemma import_loop_unlocked:
  "vault_unlocked w \<Longrightarrow>
   \<exists>added.
     fst (import_loop L incoming n w) = Inr (n + length added) \<and>
     accounts (snd (import_loop L incoming n w)) = accounts w @ added \<and>
     (\<forall>b \<in> set incoming. entry_key b \<in> entry_key ` set (accounts w @ added)) \<and>
     (\<forall>a \<in> set added. entry_key a \<notin> entry_key ` set (accounts w)) \<and>
     distinct (map entry_key added) \<and>
     (\<forall>a \<in> set added. \<exists>b \<in> set incoming. \<exists>t \<ge> tick w. a = created_account L (input_of b) t) \<and>
     (distinct (map entry_key incoming) \<longrightarrow>
        map input_of added =
          map input_of (filter (\<lambda>b. entry_key b \<notin> entry_key ` set (accounts w)) incoming))"
proof (induction incoming arbitrary: n w)
  case Nil
  then show ?case by simp
next
  case (Cons b rest)
  show ?case
  proof (cases "entry_key b \<in> entry_key ` set (accounts w)")
    case True
    from Cons.IH [OF Cons.prems, of n] obtain added where
      r: "fst (import_loop L rest n w) = Inr (n + length added)"
      and a: "accounts (snd (import_loop L rest n w)) = accounts w @ added"
      and p1: "\<forall>b \<in> set rest. entry_key b \<in> entry_key ` set (accounts w @ added)"
      and p2: "\<forall>a \<in> set added. entry_key a \<notin> entry_key ` set (accounts w)"
      and p3: "distinct (map entry_key added)"
      and p4: "\<forall>a \<in> set added. \<exists>b \<in> set rest. \<exists>t \<ge> tick w. a = created_account L (input_of b) t"
      and p5: "distinct (map entry_key rest) \<longrightarrow>
        map input_of added =
          map input_of (filter (\<lambda>b. entry_key b \<notin> entry_key ` set (accounts w)) rest)"
      by blast
    have step: "import_loop L (b # rest) n w = import_loop L rest n w"
      using True by (simp only: import_loop_step if_True)
    have q1: "\<forall>x \<in> set (b # rest). entry_key x \<in> entry_key ` set (accounts w @ added)"
      using True p1 by auto
    have q4: "\<forall>a \<in> set added. \<exists>x \<in> set (b # rest). \<exists>t \<ge> tick w.
                a = created_account L (input_of x) t"
      using p4 by auto
    have q5: "distinct (map entry_key (b # rest)) \<longrightarrow>
        map input_of added =
          map input_of (filter (\<lambda>b. entry_key b \<notin> entry_key ` set (accounts w)) (b # rest))"
      using True p5 by simp
    from r a q1 p2 p3 q4 q5 show ?thesis
      unfolding step by blast
  next
    case False
    let ?new = "created_account L (input_of b) (tick w)"
    let ?w1 = "snd (addAccount L (input_of b) w)"
    have u: "isUnlocked w" using Cons.prems by (simp add: vault_unlocked_def)
    have f1: "fst (addAccount L (input_of b) w) = Inr ?new"
      and v1: "vault_unlocked ?w1"
      and t1: "tick ?w1 = tick w + 6"
      using addAccount_unlocked [OF Cons.prems, of L "input_of b"] by simp_all
    have a1: "accounts ?w1 = accounts w @ [?new]"
      using addAccount_accounts [OF u, of L "input_of b"] by simp
    have step: "import_loop L (b # rest) n w = import_loop L rest (n + 1) ?w1"
      using False f1 by (simp only: import_loop_step if_False split_def) simp
    from Cons.IH [OF v1, of "n + 1"] obtain added where
      r: "fst (import_loop L rest (n + 1) ?w1) = Inr (n + 1 + length added)"
      and a: "accounts (snd (import_loop L rest (n + 1) ?w1)) = accounts ?w1 @ added"
      and p1: "\<forall>b \<in> set rest. entry_key b \<in> entry_key ` set (accounts ?w1 @ added)"
      and p2: "\<forall>a \<in> set added. entry_key a \<notin> entry_key ` set (accounts ?w1)"
      and p3: "distinct (map entry_key added)"
      and p4: "\<forall>a \<in> set added. \<exists>b \<in> set rest. \<exists>t \<ge> tick ?w1. a = created_account L (input_of b) t"
      and p5: "distinct (map entry_key rest) \<longrightarrow>
        map input_of added =
          map input_of (filter (\<lambda>b. entry_key b \<notin> entry_key ` set (accounts ?w1)) rest)"
      by blast
    have q0: "fst (import_loop L rest (n + 1) ?w1) = Inr (n + length (?new # added))"
      using r by simp
    have qa: "accounts (snd (import_loop L rest (n + 1) ?w1)) = accounts w @ (?new # added)"
      using a a1 by simp
    have q1: "\<forall>x \<in> set (b # rest). entry_key x \<in> entry_key ` set (accounts w @ (?new # added))"
    proof
      fix x assume "x \<in> set (b # rest)"
      then consider "x = b" | "x \<in> set rest" by auto
      then show "entry_key x \<in> entry_key ` set (accounts w @ (?new # added))"
      proof cases
        case 1
        have "entry_key ?new = entry_key b" by simp
        then show ?thesis using 1 by (metis image_eqI in_set_conv_decomp)
      next
        case 2
        then show ?thesis using p1 a1 by auto
      qed
    qed
    have q2: "\<forall>a \<in> set (?new # added). entry_key a \<notin> entry_key ` set (accounts w)"
      using False p2 a1 by auto
    have q3: "distinct (map entry_key (?new # added))"
    proof -
      have "entry_key ?new \<in> entry_key ` set (accounts ?w1)"
        unfolding a1 by simp
      then have "entry_key ?new \<notin> entry_key ` set added"
        using p2 by auto
      then show ?thesis using p3 by simp
    qed
    have q4: "\<forall>a \<in> set (?new # added). \<exists>x \<in> set (b # rest). \<exists>t \<ge> tick w.
                a = created_account L (input_of x) t"
    proof
      fix a assume "a \<in> set (?new # added)"
      then consider "a = ?new" | "a \<in> set added" by auto
      then show "\<exists>x \<in> set (b # rest). \<exists>t \<ge> tick w. a = created_account L (input_of x) t"
      proof cases
        case 1
        then show ?thesis by auto
      next
        case 2
        then obtain x t where "x \<in> set rest" "tick ?w1 \<le> t" "a = created_account L (input_of x) t"
          using p4 by blast
        moreover have "tick w \<le> t" using \<open>tick ?w1 \<le> t\<close> t1 by simp
        ultimately show ?thesis by auto
      qed
    qed
    have q5: "distinct (map entry_key (b # rest)) \<longrightarrow>
        map input_of (?new # added) =
          map input_of (filter (\<lambda>b. entry_key b \<notin> entry_key ` set (accounts w)) (b # rest))"
    proof
      assume d: "distinct (map entry_key (b # rest))"
      then have nb: "entry_key b \<notin> entry_key ` set rest" and dr: "distinct (map entry_key rest)"
        by simp_all
      have same: "filter (\<lambda>x. entry_key x \<notin> entry_key ` set (accounts ?w1)) rest =
                  filter (\<lambda>x. entry_key x \<notin> entry_key ` set (accounts w)) rest"
      proof (rule filter_cong [OF refl])
        fix x assume "x \<in> set rest"
        then have "entry_key x \<noteq> entry_key b" using nb by (metis imageI)
        then show "(entry_key x \<notin> entry_key ` set (accounts ?w1)) =
                   (entry_key x \<notin> entry_key ` set (accounts w))"
          unfolding a1 by auto
      qed
      have "map input_of added =
              map input_of (filter (\<lambda>x. entry_key x \<notin> entry_key ` set (accounts w)) rest)"
        using p5 dr same by simp
      then show "map input_of (?new # added) =
          map input_of (filter (\<lambda>b. entry_key b \<notin> entry_key ` set (accounts w)) (b # rest))"
        using False by simp
    qed
    from q0 qa q1 q2 q3 q4 q5 show ?thesis
      unfolding step by blast
  qed
qed

lemma replicate_num: "replicate (numeral k) x = x # replicate (pred_numeral k) x"
  by (simp add: numeral_eq_Suc)

text \<open>The incoming accounts the loop admits, by position: those whose issuer and name
  occur neither in the vault nor earlier in the payload.\<close>

lemma import_loop_positions:
  "vault_unlocked w \<Longrightarrow>
   map input_of (drop (length (accounts w)) (accounts (snd (import_loop L incoming n w)))) =
     map input_of
       (nths incoming
          {i. entry_key (incoming ! i) \<notin> entry_key ` set (accounts w @ take i incoming)})"
proof (induction incoming arbitrary: n w)
  case Nil
  then show ?case by simp
next
  case (Cons b rest)
  let ?A = "{i. entry_key ((b # rest) ! i) \<notin> entry_key ` set (accounts w @ take i (b # rest))}"
  have tail: "{j. Suc j \<in> ?A} =
              {j. entry_key (rest ! j) \<notin> entry_key ` set (accounts w @ [b] @ take j rest)}"
    by auto
  show ?case
  proof (cases "entry_key b \<in> entry_key ` set (accounts w)")
    case True
    have step: "import_loop L (b # rest) n w = import_loop L rest n w"
      using True by (simp only: import_loop_step if_True)
    have zero: "0 \<notin> ?A" using True by simp
    have same: "{j. Suc j \<in> ?A} =
                {j. entry_key (rest ! j) \<notin> entry_key ` set (accounts w @ take j rest)}"
      unfolding tail using True by auto
    have "nths (b # rest) ?A = (if 0 \<in> ?A then [b] else []) @ nths rest {j. Suc j \<in> ?A}"
      by (rule nths_Cons)
    then have sel: "nths (b # rest) ?A =
        nths rest {j. entry_key (rest ! j) \<notin> entry_key ` set (accounts w @ take j rest)}"
      using zero by (simp only: same if_False append_Nil)
    show ?thesis
      unfolding step sel by (rule Cons.IH [OF Cons.prems])
  next
    case False
    let ?new = "created_account L (input_of b) (tick w)"
    let ?w1 = "snd (addAccount L (input_of b) w)"
    have u: "isUnlocked w" using Cons.prems by (simp add: vault_unlocked_def)
    have f1: "fst (addAccount L (input_of b) w) = Inr ?new"
      and v1: "vault_unlocked ?w1"
      using addAccount_unlocked [OF Cons.prems, of L "input_of b"] by simp_all
    have a1: "accounts ?w1 = accounts w @ [?new]"
      using addAccount_accounts [OF u, of L "input_of b"] by simp
    have step: "import_loop L (b # rest) n w = import_loop L rest (n + 1) ?w1"
      using False f1 by (simp only: import_loop_step if_False split_def) simp
    obtain added where fin: "accounts (snd (import_loop L rest (n + 1) ?w1)) = accounts ?w1 @ added"
      using import_loop_unlocked [OF v1, of L rest "n + 1"] by auto
    have zero: "0 \<in> ?A" using False by simp
    have same: "{j. Suc j \<in> ?A} =
                {j. entry_key (rest ! j) \<notin> entry_key ` set (accounts ?w1 @ take j rest)}"
      unfolding tail a1 by auto
    have "map input_of added =
            map input_of (nths rest {j. entry_key (rest ! j)
                                      \<notin> entry_key ` set (accounts ?w1 @ take j rest)})"
      using Cons.IH [OF v1, of "n + 1"] fin by simp
    then have ih: "map input_of added =
            map input_of (nths rest {j. Suc j \<in> ?A})"
      by (simp only: same)
    have "nths (b # rest) ?A = (if 0 \<in> ?A then [b] else []) @ nths rest {j. Suc j \<in> ?A}"
      by (rule nths_Cons)
    then have sel: "nths (b # rest) ?A = b # nths rest {j. Suc j \<in> ?A}"
      using zero by (simp only: if_True append_Cons append_Nil)
    have "drop (length (accounts w)) (accounts (snd (import_loop L rest (n + 1) ?w1)))
            = ?new # added"
      using fin by (simp add: a1)
    then show ?thesis
      unfolding step sel using ih by simp
  qed
qed

section \<open>Export and import\<close>

lemma exportVault_fst:
  assumes "vault_unlocked w" and "masterPassword w = Some mpw"
  shows "fst (exportVault L tpo w) =
           Inr (stringify_export L (export_record L (transfer_password tpo mpw) w))"
  using assms
  by (simp add: exportVault_def vault_unlocked_def truthy_def transfer_password_def
        export_record_def Let_def split_def)

lemma addAccount_error: "fst (addAccount L a w) = Inl e \<Longrightarrow> e = VaultIsLocked"
  by (auto simp add: addAccount_def saveVault_def generateId_eq Let_def split_def
        split: if_splits option.splits prod.splits sum.splits)

lemma import_loop_error: "fst (import_loop L incoming n w) = Inl e \<Longrightarrow> e = VaultIsLocked"
proof (induction incoming arbitrary: n w)
  case Nil
  then show ?case by simp
next
  case (Cons b rest)
  show ?case
  proof (cases "entry_key b \<in> entry_key ` set (accounts w)")
    case True
    then show ?thesis using Cons by (simp only: import_loop_step if_True)
  next
    case False
    obtain r w1 where a: "addAccount L (input_of b) w = (r, w1)"
      by (cases "addAccount L (input_of b) w")
    show ?thesis
    proof (cases r)
      case (Inl e')
      then have "e' = VaultIsLocked" using addAccount_error [of L "input_of b" w e'] a by simp
      moreover have "import_loop L (b # rest) n w = (Inl e', w1)"
        using False a Inl by (simp only: import_loop_step if_False) simp
      ultimately show ?thesis using Cons.prems by simp
    next
      case (Inr u)
      then have "import_loop L (b # rest) n w = import_loop L rest (n + 1) w1"
        using False a by (simp only: import_loop_step if_False) simp
      then show ?thesis using Cons by simp
    qed
  qed
qed

text \<open>Importing what \<^verbatim>\<open>exportVault\<close> produced gets as far as the loop.\<close>

lemma import_of_export:
  assumes "parse_export L (stringify_export L (export_record L pw w1))
             = Some (export_record L pw w1)"
      and "library_roundtrip L (stringify_accounts L (accounts w1)) pw
             (saltUsed L None w1) (ivUsed L None None w1)"
      and "stringify_accounts L (accounts w1) \<noteq> []"
  shows "importVault_try L (stringify_export L (export_record L pw w1)) pw w =
           (case parse_accounts L (stringify_accounts L (accounts w1)) of
              None \<Rightarrow> (Inl JsonSyntaxError, w)
            | Some incoming \<Rightarrow> import_loop L incoming 0 w)"
proof -
  let ?data = "stringify_accounts L (accounts w1)"
  let ?x = "export_record L pw w1"
  have "decrypt_envelope L (fst (encrypt L ?data pw None None w1)) pw = Inr ?data"
    using decrypt_encrypt_general [OF assms(2)] assms(3) by simp
  then have dec: "decrypt L (x_encryptedData ?x) pw (x_salt ?x) (x_iv ?x) (x_hmac ?x) = Inr ?data"
    by (simp add: decrypt_envelope_def export_record_def Let_def)
  have chk: "x_checksum ?x = createChecksum L ?data"
    by (simp add: export_record_def Let_def)
  show ?thesis
    by (simp add: importVault_try_def assms(1) dec chk)
qed

section \<open>Import into a vault that holds no password\<close>

text \<open>With the flag set and no non-empty master password, \<^verbatim>\<open>saveVault\<close> refuses, so
  \<^verbatim>\<open>addAccount\<close> throws after it has pushed the new account, and the loop of
  \<^verbatim>\<open>importVault\<close> stops at the first incoming account that is not a duplicate.\<close>

lemma saveVault_unkeyed:
  "\<not> truthy (masterPassword w) \<Longrightarrow> saveVault L w = (Inl VaultIsLocked, w)"
  by (simp add: saveVault_def truthy_def split: option.splits)

lemma addAccount_unkeyed:
  assumes "isUnlocked w" and "\<not> truthy (masterPassword w)"
  shows "addAccount L a w =
           (Inl VaultIsLocked,
            w\<lparr>tick := tick w + 4, accounts := accounts w @ [created_account L a (tick w)]\<rparr>)"
proof -
  let ?w4 = "w\<lparr>tick := tick w + 4, accounts := accounts w @ [created_account L a (tick w)]\<rparr>"
  have "\<not> truthy (masterPassword ?w4)" using assms(2) by simp
  then have "saveVault L ?w4 = (Inl VaultIsLocked, ?w4)" by (rule saveVault_unkeyed)
  then show ?thesis by (simp add: addAccount_eq [OF assms(1)])
qed

lemma import_loop_unkeyed:
  assumes "isUnlocked w" and "\<not> truthy (masterPassword w)"
  shows "import_loop L incoming n w =
     (case filter (\<lambda>b. entry_key b \<notin> entry_key ` set (accounts w)) incoming of
        [] \<Rightarrow> (Inr n, w)
      | b # rest \<Rightarrow>
          (Inl VaultIsLocked,
           w\<lparr>tick := tick w + 4,
             accounts := accounts w @ [created_account L (input_of b) (tick w)]\<rparr>))"
proof (induction incoming)
  case Nil
  show ?case by simp
next
  case (Cons b rest)
  show ?case
  proof (cases "entry_key b \<in> entry_key ` set (accounts w)")
    case True
    then show ?thesis using Cons.IH by (simp only: import_loop_step) simp
  next
    case False
    then show ?thesis
      by (simp only: import_loop_step addAccount_unkeyed [OF assms]) simp
  qed
qed

lemma importVault_without_password:
  assumes "isUnlocked w" and "\<not> truthy (masterPassword w)"
      and "parse_export L payload = Some x"
      and "decrypt L (x_encryptedData x) tp (x_salt x) (x_iv x) (x_hmac x) = Inr plain"
      and "createChecksum L plain = x_checksum x"
      and "parse_accounts L plain = Some incoming"
  shows "importVault L payload tp w =
     (case filter (\<lambda>b. entry_key b \<notin> entry_key ` set (accounts w)) incoming of
        [] \<Rightarrow> (Inr 0, w)
      | b # rest \<Rightarrow>
          (Inl FailedToImportVault,
           w\<lparr>tick := tick w + 4,
             accounts := accounts w @ [created_account L (input_of b) (tick w)]\<rparr>))"
proof -
  have tr: "importVault_try L payload tp w = import_loop L incoming 0 w"
    using assms(3-6) by (simp add: importVault_try_def)
  show ?thesis
    using assms(1)
    by (cases "filter (\<lambda>b. entry_key b \<notin> entry_key ` set (accounts w)) incoming")
       (simp_all add: importVault_def tr import_loop_unkeyed [OF assms(1,2)])
qed

text \<open>The state \<^verbatim>\<open>createVault('')\<close> leaves, and the transfer payload of the examples.\<close>

lemma toy_unkeyed_fields:
  "isUnlocked toy_unkeyed" "masterPassword toy_unkeyed = Some []" "accounts toy_unkeyed = []"
  "tick toy_unkeyed = 0" "fst (createVault toy_ext [] toy_world) = Inl VaultIsLocked"
  by (simp_all add: toy_unkeyed_def toy_eval)

lemma toy_payload_valid:
  "parse_export toy_ext toy_payload = Some toy_export"
  "decrypt toy_ext (x_encryptedData toy_export) ''transfer'' (x_salt toy_export)
     (x_iv toy_export) (x_hmac toy_export) = Inr toy_plain"
  "createChecksum toy_ext toy_plain = x_checksum toy_export"
  "parse_accounts toy_ext toy_plain = Some [acc_github, acc_gitlab, acc_mail]"
proof -
  show "parse_export toy_ext toy_payload = Some toy_export"
    by (simp add: toy_payload_def toy_export_def toy_ext_def toy_join_def)
  show "decrypt toy_ext (x_encryptedData toy_export) ''transfer'' (x_salt toy_export)
     (x_iv toy_export) (x_hmac toy_export) = Inr toy_plain"
    by (simp add: toy_export_def toy_plain_def toy_simps enc_simps Let_def replicate_num)
  show "createChecksum toy_ext toy_plain = x_checksum toy_export"
    by (simp add: createChecksum_def toy_export_def toy_plain_def toy_simps)
  show "parse_accounts toy_ext toy_plain = Some [acc_github, acc_gitlab, acc_mail]"
    by (simp add: toy_plain_def toy_simps)
qed


section \<open>Storage\<close>

lemma getItem_setItem:
  "getItem L k (setItem L k' v w) = (if k = k' then Some v else getItem L k w)"
  by (simp add: getItem_def setItem_def Let_def)

lemma getItem_removeItem:
  "getItem L k (removeItem L k' w) = (if k = k' then None else getItem L k w)"
  by (simp add: getItem_def removeItem_def Let_def)

lemma getItem_tick [simp]: "getItem L k (w\<lparr>tick := t\<rparr>) = getItem L k w"
  by (simp add: getItem_def Let_def)

lemma storage_keys_differ: "BIOMETRIC_KEY_STORAGE \<noteq> SESSION_KEY_STORAGE"
  by (simp add: BIOMETRIC_KEY_STORAGE_def SESSION_KEY_STORAGE_def)

lemma generateTransferKey_snd: "snd (generateTransferKey L w) = w\<lparr>tick := Suc (tick w)\<rparr>"
  by (simp add: generateTransferKey_def getRandomValues_def split_def)

section \<open>Biometric unlock\<close>

lemma authenticate_granted:
  assumes "isElectron L" and "electron_biometric L = Some prompt" and "\<forall>t reason. prompt t reason"
  shows "authenticate L reason w = (True, w\<lparr>tick := Suc (tick w)\<rparr>)"
  using assms by (simp add: authenticate_def)

lemma authenticate_storage:
  "localStorage (snd (authenticate L reason w)) = localStorage w"
  "electronStore (snd (authenticate L reason w)) = electronStore w"
  by (simp_all add: authenticate_def split: option.splits)

lemma enable_granted:
  assumes "isElectron L" and "electron_biometric L = Some prompt" and "\<forall>t reason. prompt t reason"
  shows "enable L pw w =
           (True, setItem L BIOMETRIC_KEY_STORAGE ''true''
                    (setItem L SESSION_KEY_STORAGE (stringify_session L (session_record L pw w))
                       (w\<lparr>tick := tick w + 4\<rparr>)))"
proof -
  have arith: "tick w + 4 = Suc (Suc (Suc (Suc (tick w))))" by simp
  show ?thesis
    by (simp add: enable_def authenticate_granted [OF assms] session_record_def
          generateTransferKey_snd encrypt_snd_fresh Let_def split_def arith)
qed

text \<open>What \<^verbatim>\<open>unlock\<close> returns right after a successful \<^verbatim>\<open>enable\<close>, whatever the password.\<close>

lemma unlock_after_enable:
  assumes el: "isElectron L" and bio: "electron_biometric L = Some prompt"
      and yes: "\<forall>t reason. prompt t reason"
      and json: "parse_session L (stringify_session L (session_record L pw w))
                   = Some (session_record L pw w)"
      and nonempty: "stringify_session L (session_record L pw w) \<noteq> []"
      and rt: "library_roundtrip L pw (s_sessionKey (session_record L pw w))
                 (saltUsed L None (w\<lparr>tick := tick w + 2\<rparr>))
                 (ivUsed L None None (w\<lparr>tick := tick w + 2\<rparr>))"
  shows "fst (enable L pw w)"
    and "fst (unlock L (snd (enable L pw w))) = (if pw = [] then None else Some pw)"
proof -
  let ?sd = "session_record L pw w"
  let ?w2 = "w\<lparr>tick := tick w + 2\<rparr>"
  let ?w5 = "setItem L BIOMETRIC_KEY_STORAGE ''true''
               (setItem L SESSION_KEY_STORAGE (stringify_session L ?sd) (w\<lparr>tick := tick w + 4\<rparr>))"
  have en: "enable L pw w = (True, ?w5)"
    using el bio yes by (rule enable_granted)
  show "fst (enable L pw w)" by (simp add: en)
  have enabled: "isEnabled L ?w5"
    by (simp add: isEnabled_def getItem_setItem)
  have stored: "getItem L SESSION_KEY_STORAGE (snd (authenticate L ''Unlock nAuth'' ?w5))
                  = Some (stringify_session L ?sd)"
    by (simp add: authenticate_granted [OF el bio yes] getItem_setItem storage_keys_differ
          storage_keys_differ [symmetric])
  have w2: "snd (generateTransferKey L (w\<lparr>tick := Suc (tick w)\<rparr>)) = ?w2"
    by (simp add: generateTransferKey_snd)
  have env: "\<lparr>encrypted = s_encrypted ?sd, salt = s_salt ?sd, iv = s_iv ?sd, hmac = s_hmac ?sd\<rparr>
               = fst (encrypt L pw (s_sessionKey ?sd) None None ?w2)"
    by (simp add: session_record_def Let_def w2)
  have "decrypt_envelope L (fst (encrypt L pw (s_sessionKey ?sd) None None ?w2)) (s_sessionKey ?sd)
          = (if pw = [] then Inl DecryptionFailed else Inr pw)"
    using rt by (rule decrypt_encrypt_general)
  then have dec: "decrypt L (s_encrypted ?sd) (s_sessionKey ?sd) (s_salt ?sd) (s_iv ?sd) (s_hmac ?sd)
          = (if pw = [] then Inl DecryptionFailed else Inr pw)"
    unfolding env [symmetric] by (simp add: decrypt_envelope_def)
  show "fst (unlock L (snd (enable L pw w))) = (if pw = [] then None else Some pw)"
    using enabled stored nonempty json dec
    by (simp add: en unlock_def authenticate_granted [OF el bio yes] split_def)
qed

lemma unlock_after_disable: "fst (unlock L (disable L w)) = None"
  by (simp add: unlock_def disable_def isEnabled_def getItem_removeItem storage_keys_differ)

lemma enable_refused:
  assumes "\<not> fst (authenticate L ''Enable biometric unlock'' w)"
  shows "\<not> fst (enable L pw w)"
    and "localStorage (snd (enable L pw w)) = localStorage w"
    and "electronStore (snd (enable L pw w)) = electronStore w"
    and "getItem L k (snd (enable L pw w)) = getItem L k w"
  using assms authenticate_storage [of L "''Enable biometric unlock''" w]
  by (simp_all add: enable_def split_def getItem_def Let_def)

lemmas session_simps = session_record_def generateTransferKey_def getRandomValues_def
  encrypt_fst saltUsed_def ivUsed_def generateSalt_def generateIV_def toWordArray_def
  deriveKey_def KEY_LENGTH_def PBKDF2_ITERATIONS_def arrayBufferToBase64_def
  library_roundtrip_def Let_def split_def upt_rec replicate_num toy_simps

section \<open>Normalised secrets\<close>

lemma base32Regex_chars:
  assumes "base32Regex s"
  shows "\<forall>c \<in> set s. isBase32Char c \<or> c = CHR ''=''"
proof
  fix c assume "c \<in> set s"
  then have "c \<in> set (takeWhile isBase32Char s) \<or> c \<in> set (dropWhile isBase32Char s)"
    by (metis Un_iff set_append takeWhile_dropWhile_id)
  then show "isBase32Char c \<or> c = CHR ''=''"
  proof
    assume "c \<in> set (takeWhile isBase32Char s)"
    then show ?thesis by (auto dest: set_takeWhileD)
  next
    assume "c \<in> set (dropWhile isBase32Char s)"
    then show ?thesis using assms by (auto simp add: base32Regex_def list_all_iff)
  qed
qed

lemma base32_char_fixed:
  assumes "isBase32Char c \<or> c = CHR ''=''"
  shows "\<not> isWhitespace c" and "upperChar c = Some [c]"
proof -
  show "\<not> isWhitespace c"
    using assms unfolding isBase32Char_def
    by (simp only: list.set insert_iff empty_iff) (elim disjE; simp add: isWhitespace_def)
  show "upperChar c = Some [c]"
    using assms unfolding isBase32Char_def
    by (simp only: list.set insert_iff empty_iff)
       (elim disjE; simp add: upperChar_def upperTable_def)
qed

lemma toUpperCase_fixed:
  "\<forall>c \<in> set s. upperChar c = Some [c] \<Longrightarrow> toUpperCase s = Some s"
  by (induction s) simp_all

lemma base32Regex_normal:
  assumes "base32Regex s"
  shows "removeWhitespace s = s" and "toUpperCase s = Some s" and "s \<noteq> []"
proof -
  have ch: "\<forall>c \<in> set s. \<not> isWhitespace c \<and> upperChar c = Some [c]"
    using base32Regex_chars [OF assms] base32_char_fixed by blast
  show "removeWhitespace s = s"
    using ch by (simp add: removeWhitespace_def filter_id_conv)
  show "toUpperCase s = Some s"
    using ch by (simp add: toUpperCase_fixed)
  show "s \<noteq> []"
    using assms by (auto simp add: base32Regex_def)
qed

lemma validateSecret_iff:
  "validateSecret L s \<longleftrightarrow>
     (\<exists>clean. toUpperCase (removeWhitespace s) = Some clean \<and> base32Regex clean \<and>
              otpauth_totp L clean)"
  by (auto simp add: validateSecret_def split: option.splits)

lemma validateSecret_regex:
  "validateSecret L s \<Longrightarrow>
     \<exists>clean. toUpperCase (removeWhitespace s) = Some clean \<and> base32Regex clean"
  by (auto simp add: validateSecret_iff)

text \<open>A secret that \<^verbatim>\<open>validateSecret\<close> accepts has a capital form in the alphabet of the
  model, which \<^verbatim>\<open>validateSecret\<close> accepts again: the last branch but one of
  \<^verbatim>\<open>handleManualSubmit\<close> is never taken.\<close>

lemma validateSecret_normalised:
  assumes "validateSecret L s"
  shows "\<exists>clean. toUpperCase (removeWhitespace s) = Some clean \<and> validateSecret L clean"
proof -
  obtain clean where c: "toUpperCase (removeWhitespace s) = Some clean"
    and r: "base32Regex clean" and o: "otpauth_totp L clean"
    using assms by (auto simp add: validateSecret_iff)
  have "toUpperCase (removeWhitespace clean) = Some clean"
    using base32Regex_normal(1,2) [OF r] by simp
  then have "validateSecret L clean" using r o by (simp add: validateSecret_iff)
  then show ?thesis using c by blast
qed

text \<open>\<^verbatim>\<open>addAccount\<close> returns an account only to a vault that is unlocked and holds a
  non-empty master password.\<close>

lemma addAccount_returns:
  assumes "fst (addAccount L a w) = Inr x"
  shows "vault_unlocked w"
proof -
  let ?w4 = "w\<lparr>tick := tick w + 4, accounts := accounts w @ [created_account L a (tick w)]\<rparr>"
  have u: "isUnlocked w"
    using assms by (cases "isUnlocked w") (simp_all add: addAccount_locked)
  have "\<exists>v. fst (saveVault L ?w4) = Inr v"
    using assms by (cases "fst (saveVault L ?w4)") (simp_all add: addAccount_proj(1) [OF u])
  then have "truthy (masterPassword w)"
    by (auto simp add: saveVault_def truthy_def Let_def split_def split: option.splits if_splits)
  then show ?thesis using u by (simp add: vault_unlocked_def)
qed

lemma addManual_accepted:
  assumes "validateSecret L (secret a)" and "vault_unlocked w"
  shows "fst (addManual L a w) = Inr (created_account L a (tick w))"
    and "accounts (snd (addManual L a w)) = accounts w @ [created_account L a (tick w)]"
proof -
  have u: "isUnlocked w" using assms(2) by (simp add: vault_unlocked_def)
  show "fst (addManual L a w) = Inr (created_account L a (tick w))"
    using assms addAccount_unlocked(1) [OF assms(2), of L a] by (simp add: addManual_def)
  show "accounts (snd (addManual L a w)) = accounts w @ [created_account L a (tick w)]"
    using assms(1) addAccount_accounts [OF u, of L a] by (simp add: addManual_def)
qed

lemma addManual_returns:
  assumes "fst (addManual L a w) = Inr x"
  shows "validateSecret L (secret a)" and "vault_unlocked w"
proof -
  show v: "validateSecret L (secret a)"
    using assms by (cases "validateSecret L (secret a)") (simp_all add: addManual_def)
  then have "fst (addAccount L a w) = Inr x" using assms by (simp add: addManual_def)
  then show "vault_unlocked w" by (rule addAccount_returns)
qed

text \<open>The account object the manual form passes to \<^verbatim>\<open>addManual\<close>.\<close>

lemma handleManualSubmit_eq:
  assumes "f_name form \<noteq> []" and "f_secret form \<noteq> []" and "validateSecret L (f_secret form)"
    and "toUpperCase (removeWhitespace (f_secret form)) = Some n"
  shows "handleManualSubmit L form w =
     (case addManual L
             \<lparr>name = f_name form,
              issuer = (if f_issuer form = [] then ''Unknown'' else f_issuer form),
              secret = n,
              otp_type = f_type form, algorithm = f_algorithm form,
              digits = f_digits form, period = f_period form, counter = 0\<rparr> w of
        (Inl e, w1) \<Rightarrow> (ShowError ''Failed to add account. Please try again.'', w1)
      | (Inr x, w1) \<Rightarrow> (Added, w1))"
  unfolding handleManualSubmit_def using assms by simp

lemma validateSecret_nonempty:
  assumes "validateSecret L s"
  shows "s \<noteq> []"
proof
  assume "s = []"
  then have "toUpperCase (removeWhitespace s) = Some []" by (simp add: removeWhitespace_def)
  then have "base32Regex []" using validateSecret_regex [OF assms] by simp
  then show False by (simp add: base32Regex_def)
qed

lemma handleManualSubmit_added:
  assumes "vault_unlocked w" and "f_name form \<noteq> []" and "validateSecret L (f_secret form)"
  shows "fst (handleManualSubmit L form w) = Added"
    and "\<exists>new. accounts (snd (handleManualSubmit L form w)) = accounts w @ [new] \<and>
               toUpperCase (removeWhitespace (f_secret form)) = Some (secret new)"
proof -
  obtain n where n: "toUpperCase (removeWhitespace (f_secret form)) = Some n"
    and vn: "validateSecret L n"
    using validateSecret_normalised [OF assms(3)] by blast
  let ?a = "\<lparr>name = f_name form,
             issuer = (if f_issuer form = [] then ''Unknown'' else f_issuer form),
             secret = n,
             otp_type = f_type form, algorithm = f_algorithm form,
             digits = f_digits form, period = f_period form, counter = 0\<rparr>"
  have ne: "f_secret form \<noteq> []" using assms(3) by (rule validateSecret_nonempty)
  have v: "validateSecret L (secret ?a)" using vn by simp
  have f: "fst (addManual L ?a w) = Inr (created_account L ?a (tick w))"
    and a: "accounts (snd (addManual L ?a w)) = accounts w @ [created_account L ?a (tick w)]"
    using addManual_accepted [OF v assms(1)] by simp_all
  obtain r w1 where am: "addManual L ?a w = (r, w1)" by (cases "addManual L ?a w")
  have r: "r = Inr (created_account L ?a (tick w))" using f am by simp
  have hs: "handleManualSubmit L form w = (Added, w1)"
    by (simp add: handleManualSubmit_eq [OF assms(2) ne assms(3) n] am r)
  show "fst (handleManualSubmit L form w) = Added" by (simp add: hs)
  have "accounts w1 = accounts w @ [created_account L ?a (tick w)]" using a am by simp
  moreover have "secret (created_account L ?a (tick w)) = n"
    by (simp add: created_account_def)
  ultimately show "\<exists>new. accounts (snd (handleManualSubmit L form w)) = accounts w @ [new] \<and>
               toUpperCase (removeWhitespace (f_secret form)) = Some (secret new)"
    using n by (simp add: hs)
qed

lemma handleManualSubmit_Added_only_if:
  assumes "fst (handleManualSubmit L form w) = Added"
  shows "f_name form \<noteq> [] \<and> validateSecret L (f_secret form)" and "vault_unlocked w"
proof -
  have n1: "\<not> (f_name form = [] \<or> f_secret form = [])"
  proof
    assume "f_name form = [] \<or> f_secret form = []"
    then have "fst (handleManualSubmit L form w) = ShowError ''Name and secret are required''"
      unfolding handleManualSubmit_def by simp
    then show False using assms by simp
  qed
  have v: "validateSecret L (f_secret form)"
  proof (rule ccontr)
    assume "\<not> validateSecret L (f_secret form)"
    then have "fst (handleManualSubmit L form w)
                 = ShowError ''Invalid secret key. Must be Base32 encoded.''"
      unfolding handleManualSubmit_def using n1 by simp
    then show False using assms by simp
  qed
  show nv: "f_name form \<noteq> [] \<and> validateSecret L (f_secret form)" using n1 v by simp
  obtain n where n: "toUpperCase (removeWhitespace (f_secret form)) = Some n"
    using validateSecret_regex [OF v] by blast
  let ?a = "\<lparr>name = f_name form,
             issuer = (if f_issuer form = [] then ''Unknown'' else f_issuer form),
             secret = n,
             otp_type = f_type form, algorithm = f_algorithm form,
             digits = f_digits form, period = f_period form, counter = 0\<rparr>"
  have eq: "handleManualSubmit L form w =
     (case addManual L ?a w of
        (Inl e, w1) \<Rightarrow> (ShowError ''Failed to add account. Please try again.'', w1)
      | (Inr x, w1) \<Rightarrow> (Added, w1))"
    using n1 v n by (intro handleManualSubmit_eq) simp_all
  obtain r w1 where am: "addManual L ?a w = (r, w1)" by (cases "addManual L ?a w")
  have "\<exists>x. r = Inr x"
    using assms by (cases r) (simp_all add: eq am)
  then have "\<exists>x. fst (addManual L ?a w) = Inr x" by (simp add: am)
  then show "vault_unlocked w" using addManual_returns(2) by blast
qed

lemmas secret_simps = validateSecret_def removeWhitespace_def upperChar_def upperTable_def
  isWhitespace_def base32Regex_def isBase32Char_def Let_def

section \<open>The store of arrays and the list of accounts\<close>

text \<open>Read through the store, \<^verbatim>\<open>getAccounts\<close> returns what the list-valued model returns.\<close>

lemma getAccounts_ref_refines:
  assumes "r_isUnlocked rw = isUnlocked w" and "abstract_accounts rw = accounts w"
  shows "map_sum id (array_at (snd (getAccounts_ref rw))) (fst (getAccounts_ref rw))
           = getAccounts w"
  using assms
  by (simp add: getAccounts_ref_def getAccounts_def new_array_def array_at_def
        abstract_accounts_def)

lemma push_account_ref_refines:
  "abstract_accounts (push_account_ref x rw) = abstract_accounts rw @ [x]"
  by (simp add: push_account_ref_def abstract_accounts_def array_at_def)

lemma lockVault_ref_refines:
  "abstract_accounts (lockVault_ref rw) = [] \<and> \<not> r_isUnlocked (lockVault_ref rw)"
  by (simp add: lockVault_ref_def new_array_def abstract_accounts_def array_at_def)

lemma caller_step_invariant:
  assumes "ref_ok rw" and "r_isUnlocked rw" and "\<forall>a \<in> held. a < r_next rw \<and> a \<noteq> r_accounts rw"
      and "\<forall>xs \<in> set seen. xs = abstract_accounts rw"
      and "caller_step x (held, seen, rw) = (held', seen', rw')"
  shows "ref_ok rw' \<and> r_isUnlocked rw' \<and> (\<forall>a \<in> held'. a < r_next rw' \<and> a \<noteq> r_accounts rw') \<and>
         (\<forall>xs \<in> set seen'. xs = abstract_accounts rw') \<and>
         abstract_accounts rw' = abstract_accounts rw"
proof (cases x)
  case CallGetAccounts
  then show ?thesis
    using assms
    by (auto simp add: getAccounts_ref_def new_array_def ref_ok_def array_at_def
          abstract_accounts_def split: if_splits)
next
  case (Mutate a f)
  then show ?thesis
    using assms
    by (auto simp add: mutate_array_def ref_ok_def array_at_def abstract_accounts_def
          split: if_splits)
qed

lemma caller_run_invariant:
  "ref_ok rw \<Longrightarrow> r_isUnlocked rw \<Longrightarrow> \<forall>a \<in> held. a < r_next rw \<and> a \<noteq> r_accounts rw \<Longrightarrow>
   \<forall>xs \<in> set seen. xs = abstract_accounts rw \<Longrightarrow>
   caller_run ops (held, seen, rw) = (held', seen', rw') \<Longrightarrow>
   (\<forall>xs \<in> set seen'. xs = abstract_accounts rw) \<and> abstract_accounts rw' = abstract_accounts rw"
proof (induction ops arbitrary: held seen rw)
  case Nil
  then show ?case by simp
next
  case (Cons x ops)
  obtain h1 s1 rw1 where st: "caller_step x (held, seen, rw) = (h1, s1, rw1)"
    by (cases "caller_step x (held, seen, rw)")
  have inv: "ref_ok rw1 \<and> r_isUnlocked rw1 \<and> (\<forall>a \<in> h1. a < r_next rw1 \<and> a \<noteq> r_accounts rw1) \<and>
         (\<forall>xs \<in> set s1. xs = abstract_accounts rw1) \<and>
         abstract_accounts rw1 = abstract_accounts rw"
    using Cons.prems(1-4) st by (rule caller_step_invariant)
  have run: "caller_run ops (h1, s1, rw1) = (held', seen', rw')"
    using Cons.prems(5) st by simp
  have "(\<forall>xs \<in> set seen'. xs = abstract_accounts rw1) \<and> abstract_accounts rw' = abstract_accounts rw1"
  proof (rule Cons.IH [where rw = rw1 and held = h1 and seen = s1])
    show "ref_ok rw1" "r_isUnlocked rw1" using inv by blast+
    show "\<forall>a \<in> h1. a < r_next rw1 \<and> a \<noteq> r_accounts rw1" using inv by blast
    show "\<forall>xs \<in> set s1. xs = abstract_accounts rw1" using inv by blast
    show "caller_run ops (h1, s1, rw1) = (held', seen', rw')" by (rule run)
  qed
  then show ?case using inv by auto
qed

section \<open>C1: encryption round trip\<close>

text \<open>
  C1, as stated, fails at the empty plaintext. \<^verbatim>\<open>decrypt\<close> ends with
  \<^verbatim>\<open>if (!decryptedString) throw\<close>, and the empty string is falsy: the envelope of the
  empty plaintext passes the HMAC check, decrypts to the empty string, and is rejected
  with the decryption error, although the libraries round-trip it.
\<close>

theorem encrypt_decrypt_empty_counterexample:
  "library_roundtrip toy_ext [] ''correct-horse-battery''
     (saltUsed toy_ext None toy_world) (ivUsed toy_ext None None toy_world) \<and>
   decrypt_envelope toy_ext
     (fst (encrypt toy_ext [] ''correct-horse-battery'' None None toy_world))
     ''correct-horse-battery'' = Inl DecryptionFailed"
  by (simp add: toy_simps enc_simps upt_rec)

text \<open>
  C1, amended: for every non-empty plaintext \<open>P\<close> and every password \<open>W\<close>, with the
  caller's salt and IV or fresh ones, decrypting the envelope produced by
  \<^verbatim>\<open>encrypt(P, W)\<close> with \<open>W\<close> returns exactly \<open>P\<close>, provided the libraries round-trip
  \<open>P\<close> under the derived key (Base64 on salt, IV and ciphertext; AES and UTF-8 on \<open>P\<close>).
\<close>

theorem encrypt_decrypt_roundtrip:
  assumes "P \<noteq> []"
      and "library_roundtrip L P W (saltUsed L salt_opt w) (ivUsed L salt_opt iv_opt w)"
  shows "decrypt_envelope L (fst (encrypt L P W salt_opt iv_opt w)) W = Inr P"
proof -
  have "decrypt_envelope L (fst (encrypt L P W salt_opt iv_opt w)) W =
          (if P = [] then Inl DecryptionFailed else Inr P)"
    using assms(2) by (rule decrypt_encrypt_general)
  with assms(1) show ?thesis by simp
qed

theorem encrypt_decrypt_roundtrip_witness:
  "''[]'' \<noteq> [] \<and>
   library_roundtrip toy_ext ''[]'' ''correct-horse-battery''
     (saltUsed toy_ext None toy_world) (ivUsed toy_ext None None toy_world) \<and>
   decrypt_envelope toy_ext
     (fst (encrypt toy_ext ''[]'' ''correct-horse-battery'' None None toy_world))
     ''correct-horse-battery'' = Inr ''[]''"
proof -
  have ne: "''[]'' \<noteq> []" by simp
  have rt: "library_roundtrip toy_ext ''[]'' ''correct-horse-battery''
     (saltUsed toy_ext None toy_world) (ivUsed toy_ext None None toy_world)"
    by (simp add: toy_simps enc_simps upt_rec)
  from encrypt_decrypt_roundtrip [OF ne rt] ne rt show ?thesis by simp
qed

section \<open>C3: the HMAC is verified before decryption\<close>

text \<open>
  C3, as stated, fails for an envelope whose salt or IV is not Base64: \<^verbatim>\<open>decrypt\<close> decodes
  both with \<^verbatim>\<open>atob\<close> before it recomputes the HMAC, and \<^verbatim>\<open>atob\<close> throws. With the IV \<^verbatim>\<open>!\<close>
  and a stored HMAC that differs from the recomputed one, the error is the decoder's, not
  the integrity error.
\<close>

theorem decrypt_undecodable_iv_counterexample:
  "atob toy_ext ''stststststststst'' = Some ''stststststststst'' \<and>
   ''forged'' \<noteq>
     enc_hex toy_ext
       (hmac_sha256 toy_ext (enc_hex toy_ext (enc_base64_parse toy_ext ''olleh''))
          (toWordArray
             (pbkdf2 toy_ext (text_encode toy_ext ''pw'') (map charCodeAt ''stststststststst'')
                100000 ''SHA-256'' 256))) \<and>
   decrypt toy_ext ''olleh'' ''pw'' ''stststststststst'' ''!'' ''forged''
     = Inl InvalidCharacterError"
  by (simp add: toy_simps enc_simps)

text \<open>
  C3, amended: \<^verbatim>\<open>decrypt\<close> first decodes the salt and the IV; when either is not Base64 it
  fails with the decoder's error, whatever the stored HMAC is. Otherwise it compares the
  stored HMAC with the HMAC-SHA256, in hexadecimal, of the hexadecimal ciphertext under
  the key derived from the password and the salt, and it does so before it decrypts: when
  they differ the result is the integrity error, whatever the cipher and the UTF-8
  decoder would do (they are not consulted). A plaintext is only ever returned for an
  envelope whose HMAC matches. When the HMAC matches, the ciphertext is decrypted, and
  output that is not UTF-8 or is empty fails with an error other than the integrity
  error.
\<close>

theorem decrypt_verifies_hmac_first:
  "(\<forall>p. decrypt L ct pw salt_s iv_s hmac_s = Inr p \<longrightarrow>
        (\<exists>sbin ibin. atob L salt_s = Some sbin \<and> atob L iv_s = Some ibin \<and>
           hmac_s =
             enc_hex L
               (hmac_sha256 L (enc_hex L (enc_base64_parse L ct))
                  (toWordArray
                     (pbkdf2 L (text_encode L pw) (map charCodeAt sbin)
                        100000 ''SHA-256'' 256))))) \<and>
   (atob L salt_s = None \<or> atob L iv_s = None \<longrightarrow>
      (\<forall>f g. decrypt (L\<lparr>aes_decrypt := f, enc_utf8_stringify := g\<rparr>)
               ct pw salt_s iv_s hmac_s = Inl InvalidCharacterError)) \<and>
   (\<forall>sbin ibin. atob L salt_s = Some sbin \<and> atob L iv_s = Some ibin \<longrightarrow>
      (hmac_s \<noteq>
         enc_hex L
           (hmac_sha256 L (enc_hex L (enc_base64_parse L ct))
              (toWordArray
                 (pbkdf2 L (text_encode L pw) (map charCodeAt sbin)
                    100000 ''SHA-256'' 256))) \<longrightarrow>
         (\<forall>f g. decrypt (L\<lparr>aes_decrypt := f, enc_utf8_stringify := g\<rparr>)
                  ct pw salt_s iv_s hmac_s = Inl IntegrityCheckFailed)) \<and>
      (hmac_s =
         enc_hex L
           (hmac_sha256 L (enc_hex L (enc_base64_parse L ct))
              (toWordArray
                 (pbkdf2 L (text_encode L pw) (map charCodeAt sbin)
                    100000 ''SHA-256'' 256))) \<longrightarrow>
         decrypt L ct pw salt_s iv_s hmac_s =
           (case enc_utf8_stringify L
                   (aes_decrypt L (enc_base64_parse L ct)
                      (toWordArray
                         (pbkdf2 L (text_encode L pw) (map charCodeAt sbin)
                            100000 ''SHA-256'' 256))
                      (toWordArray (map charCodeAt ibin))) of
              None \<Rightarrow> Inl MalformedUtf8
            | Some s \<Rightarrow> if s = [] then Inl DecryptionFailed else Inr s)))"
proof -
  let ?key = "\<lambda>sbin. toWordArray
                 (pbkdf2 L (text_encode L pw) (map charCodeAt sbin) 100000 ''SHA-256'' 256)"
  let ?mac = "\<lambda>sbin. enc_hex L (hmac_sha256 L (enc_hex L (enc_base64_parse L ct)) (?key sbin))"
  have mac: "computedHmac L' ct pw (map charCodeAt sbin) =
               enc_hex L' (hmac_sha256 L' (enc_hex L' (enc_base64_parse L' ct))
                 (toWordArray (pbkdf2 L' (text_encode L' pw) (map charCodeAt sbin)
                    100000 ''SHA-256'' 256)))" for L' sbin
    by (simp add: computedHmac_def deriveKey_def PBKDF2_ITERATIONS_def KEY_LENGTH_def)
  have key: "toWordArray (deriveKey L pw (map charCodeAt sbin)) = ?key sbin" for sbin
    by (simp add: deriveKey_def PBKDF2_ITERATIONS_def KEY_LENGTH_def)
  have p1: "\<exists>sbin ibin. atob L salt_s = Some sbin \<and> atob L iv_s = Some ibin \<and>
              hmac_s = ?mac sbin"
    if "decrypt L ct pw salt_s iv_s hmac_s = Inr p" for p
    using that
    by (auto simp add: decrypt_def base64ToUint8Array_def Let_def mac
          split: option.splits if_splits)
  have p2: "decrypt (L\<lparr>aes_decrypt := f, enc_utf8_stringify := g\<rparr>) ct pw salt_s iv_s hmac_s
              = Inl InvalidCharacterError"
    if "atob L salt_s = None \<or> atob L iv_s = None" for f g
    using that
    by (auto simp add: decrypt_def base64ToUint8Array_def split: option.splits)
  have p3: "decrypt (L\<lparr>aes_decrypt := f, enc_utf8_stringify := g\<rparr>) ct pw salt_s iv_s hmac_s
              = Inl IntegrityCheckFailed"
    if "atob L salt_s = Some sbin" and "atob L iv_s = Some ibin" and "hmac_s \<noteq> ?mac sbin"
    for sbin ibin f g
    using that by (simp add: decrypt_def base64ToUint8Array_def Let_def mac)
  have p4: "decrypt L ct pw salt_s iv_s hmac_s =
           (case enc_utf8_stringify L
                   (aes_decrypt L (enc_base64_parse L ct) (?key sbin)
                      (toWordArray (map charCodeAt ibin))) of
              None \<Rightarrow> Inl MalformedUtf8
            | Some s \<Rightarrow> if s = [] then Inl DecryptionFailed else Inr s)"
    if "atob L salt_s = Some sbin" and "atob L iv_s = Some ibin" and "hmac_s = ?mac sbin"
    for sbin ibin
    using that by (simp add: decrypt_def base64ToUint8Array_def Let_def mac key)
  from p1 p2 p3 p4 show ?thesis by blast
qed

theorem decrypt_verifies_hmac_first_witness:
  "atob toy_ext ''stststststststst'' = Some ''stststststststst'' \<and>
   atob toy_ext ''tstststststststs'' = Some ''tstststststststs'' \<and>
   atob toy_ext ''!'' = None \<and>
   ''forged'' \<noteq> computedHmac toy_ext ''olleh'' ''pw'' (map charCodeAt ''stststststststst'') \<and>
   decrypt toy_ext ''olleh'' ''pw'' ''stststststststst'' ''tstststststststs'' ''forged''
     = Inl IntegrityCheckFailed \<and>
   decrypt toy_ext ''olleh'' ''pw'' ''stststststststst'' ''tstststststststs''
     (computedHmac toy_ext ''olleh'' ''pw'' (map charCodeAt ''stststststststst''))
     = Inr ''hello'' \<and>
   decrypt toy_ext ''olleh'' ''pw'' ''!'' ''tstststststststs''
     (computedHmac toy_ext ''olleh'' ''pw'' (map charCodeAt ''stststststststst''))
     = Inl InvalidCharacterError"
  using decrypt_verifies_hmac_first
          [of toy_ext "''olleh''" "''pw''" "''stststststststst''" "''tstststststststs''" "''forged''"]
        decrypt_verifies_hmac_first
          [of toy_ext "''olleh''" "''pw''" "''!''" "''tstststststststs''"
              "computedHmac toy_ext ''olleh'' ''pw'' (map charCodeAt ''stststststststst'')"]
  by (simp add: toy_simps enc_simps)

section \<open>C2: unlocking converts decryption failures into false\<close>




section \<open>C9: locking\<close>




section \<open>C10: getAccounts returns a copy\<close>

text \<open>
  C10: in an unlocked state \<^verbatim>\<open>getAccounts\<close> returns a new array with the contents of the
  vault's array. Whatever the caller then does to the returned array (any change of its
  contents: adding, removing, reordering), the vault's own array keeps its contents and
  a later \<^verbatim>\<open>getAccounts\<close> returns the same accounts again; the same holds after any
  sequence of such changes and further calls.
\<close>

theorem getAccounts_returns_copy:
  assumes "ref_ok rw" and "r_isUnlocked rw"
  shows "\<exists>a rw1. getAccounts_ref rw = (Inr a, rw1) \<and>
           a \<noteq> r_accounts rw1 \<and>
           array_at rw1 a = abstract_accounts rw \<and>
           abstract_accounts rw1 = abstract_accounts rw \<and>
           (\<forall>f. abstract_accounts (mutate_array a f rw1) = abstract_accounts rw \<and>
                (\<exists>b rw2. getAccounts_ref (mutate_array a f rw1) = (Inr b, rw2) \<and>
                          array_at rw2 b = abstract_accounts rw \<and>
                          abstract_accounts rw2 = abstract_accounts rw)) \<and>
           (\<forall>ops held' seen' rw'.
              caller_run ops ({a}, [], rw1) = (held', seen', rw') \<longrightarrow>
                abstract_accounts rw' = abstract_accounts rw \<and>
                (\<forall>xs \<in> set seen'. xs = abstract_accounts rw))"
proof -
  obtain a rw1 where g: "getAccounts_ref rw = (Inr a, rw1)"
    and a: "a = r_next rw"
    and rw1: "rw1 = rw\<lparr>r_arrays := (r_arrays rw)(r_next rw \<mapsto> array_at rw (r_accounts rw)),
                       r_next := Suc (r_next rw)\<rparr>"
    using assms(2) by (simp add: getAccounts_ref_def new_array_def)
  have fresh: "a \<noteq> r_accounts rw1" and ok1: "ref_ok rw1" and un1: "r_isUnlocked rw1"
    and lt: "a < r_next rw1"
    using assms by (simp_all add: a rw1 ref_ok_def)
  have copy: "array_at rw1 a = abstract_accounts rw"
    and kept: "abstract_accounts rw1 = abstract_accounts rw"
    using assms by (simp_all add: a rw1 ref_ok_def array_at_def abstract_accounts_def)
  have once: "\<forall>f. abstract_accounts (mutate_array a f rw1) = abstract_accounts rw \<and>
                (\<exists>b rw2. getAccounts_ref (mutate_array a f rw1) = (Inr b, rw2) \<and>
                          array_at rw2 b = abstract_accounts rw \<and>
                          abstract_accounts rw2 = abstract_accounts rw)"
    using assms
    by (auto simp add: a rw1 getAccounts_ref_def new_array_def ref_ok_def array_at_def
          abstract_accounts_def mutate_array_def)
  have many: "abstract_accounts rw' = abstract_accounts rw \<and>
              (\<forall>xs \<in> set seen'. xs = abstract_accounts rw)"
    if run: "caller_run ops ({a}, [], rw1) = (held', seen', rw')" for ops held' seen' rw'
  proof -
    have "(\<forall>xs \<in> set seen'. xs = abstract_accounts rw1) \<and>
          abstract_accounts rw' = abstract_accounts rw1"
      using ok1 un1 _ _ run
    proof (rule caller_run_invariant)
      show "\<forall>x \<in> {a}. x < r_next rw1 \<and> x \<noteq> r_accounts rw1" using lt fresh by simp
      show "\<forall>xs \<in> set []. xs = abstract_accounts rw1" by simp
    qed
    then show ?thesis by (simp add: kept)
  qed
  from g fresh copy kept once many show ?thesis by blast
qed

theorem getAccounts_returns_copy_witness:
  "ref_ok toy_ref_world \<and> r_isUnlocked toy_ref_world \<and>
   fst (getAccounts_ref toy_ref_world) = Inr 1 \<and>
   abstract_accounts (mutate_array 1 rev (snd (getAccounts_ref toy_ref_world)))
     = [acc_github, acc_gitlab] \<and>
   array_at (mutate_array 1 rev (snd (getAccounts_ref toy_ref_world))) 1
     = [acc_gitlab, acc_github] \<and>
   fst (snd (caller_run [Mutate 1 rev, CallGetAccounts, Mutate 2 tl, Mutate 1 (\<lambda>xs. []),
                          CallGetAccounts]
               ({1}, [], snd (getAccounts_ref toy_ref_world))))
     = [[acc_github, acc_gitlab], [acc_github, acc_gitlab]]"
proof -
  have ok: "ref_ok toy_ref_world" by (simp add: ref_ok_def toy_ref_world_def)
  have un: "r_isUnlocked toy_ref_world" by (simp add: toy_ref_world_def)
  from getAccounts_returns_copy [OF ok un] ok un show ?thesis
    by (simp add: toy_ref_world_def getAccounts_ref_def new_array_def array_at_def
          abstract_accounts_def mutate_array_def)
qed

section \<open>C8: account identifiers\<close>

text \<open>
  C8, as stated, fails: \<^verbatim>\<open>generateId\<close> concatenates the clock reading and nine characters
  of \<^verbatim>\<open>Math.random()\<close>, and \<^verbatim>\<open>addAccount\<close> does not compare the result with the
  identifiers already in the vault. When the environment returns the same reading and the
  same random number twice, two accounts get the same identifier.
\<close>

theorem account_id_collision_counterexample:
  "map account_id
     (accounts (run_ops toy_frozen [OpAddAccount input_github, OpAddAccount input_gitlab]
                  toy_created))
   = [''1700000000000-k3x9q1z7m'', ''1700000000000-k3x9q1z7m'']"
proof -
  have "accounts (run_ops toy_frozen [OpAddAccount input_github, OpAddAccount input_gitlab]
                    toy_created)
        = accounts toy_created @
            [created_account toy_frozen input_github (tick toy_created),
             created_account toy_frozen input_gitlab (tick toy_created + 6)]"
    using toy_created_fields(5) by (rule two_adds)
  then show ?thesis
    by (simp add: toy_created_fields id_simps toy_frozen_def toy_ext_def)
qed

text \<open>
  C8, amended: \<^verbatim>\<open>addAccount\<close> gives every new account the identifier built from the clock
  reading and the random suffix drawn at that moment, whatever the caller supplied. For
  every sequence of \<^verbatim>\<open>addAccount\<close> and \<^verbatim>\<open>importVault\<close> operations, the identifiers in the
  resulting account list are pairwise distinct, provided the environment never returns
  the same pair of clock reading and random suffix twice, and the identifiers the vault
  starts with are distinct and not among those still to come.
\<close>

theorem account_ids_distinct:
  assumes "inj_on (id_source L) {tick w..}" and "ids_fresh L w"
  shows "distinct (map account_id (accounts (run_ops L ops w))) \<and>
         (\<forall>a. isUnlocked w \<longrightarrow>
            accounts (snd (addAccount L a w)) = accounts w @ [created_account L a (tick w)] \<and>
            account_id (created_account L a (tick w)) = id_at L (tick w))"
proof -
  have "ids_fresh L (run_ops L ops w)"
    using assms(1) order_refl assms(2) by (rule ids_fresh_run_ops)
  then have "distinct (map account_id (accounts (run_ops L ops w)))"
    by (simp add: ids_fresh_def)
  moreover have "accounts (snd (addAccount L a w)) = accounts w @ [created_account L a (tick w)]"
    if "isUnlocked w" for a
    using addAccount_accounts [OF that] by simp
  moreover have "account_id (created_account L a (tick w)) = id_at L (tick w)" for a
    by (simp add: created_account_def)
  ultimately show ?thesis by simp
qed

theorem account_ids_distinct_witness:
  "inj_on (id_source toy_ext) {tick toy_created..} \<and>
   ids_fresh toy_ext toy_created \<and>
   map account_id
     (accounts (run_ops toy_ext [OpAddAccount input_github, OpAddAccount input_gitlab]
                  toy_created))
   = [''1700000000002-k3x93'', ''1700000000008-k3x99''] \<and>
   distinct (map account_id
     (accounts (run_ops toy_ext [OpAddAccount input_github, OpAddAccount input_gitlab]
                  toy_created)))"
proof -
  have inj: "inj_on (id_source toy_ext) {tick toy_created..}"
    by (simp add: inj_on_def id_source_def toy_ext_def)
  have fresh: "ids_fresh toy_ext toy_created"
    by (simp add: ids_fresh_def toy_created_fields)
  have ids: "map account_id
     (accounts (run_ops toy_ext [OpAddAccount input_github, OpAddAccount input_gitlab]
                  toy_created))
   = [''1700000000002-k3x93'', ''1700000000008-k3x99'']"
  proof -
    have "accounts (run_ops toy_ext [OpAddAccount input_github, OpAddAccount input_gitlab]
                      toy_created)
          = accounts toy_created @
              [created_account toy_ext input_github (tick toy_created),
               created_account toy_ext input_gitlab (tick toy_created + 6)]"
      using toy_created_fields(5) by (rule two_adds)
    then show ?thesis
      by (simp add: toy_created_fields id_simps toy_ext_def)
  qed
  from account_ids_distinct [OF inj fresh] inj fresh ids show ?thesis by simp
qed

section \<open>C5: import skips duplicates\<close>

text \<open>
  C5, as stated, fails for a vault whose flag is set while it holds no non-empty master
  password, the state \<^verbatim>\<open>createVault('')\<close> leaves (its save is refused after the fields
  are set): \<^verbatim>\<open>importVault\<close> passes its guard, \<^verbatim>\<open>addAccount\<close> pushes the first incoming
  account and throws because \<^verbatim>\<open>saveVault\<close> refuses, and \<^verbatim>\<open>importVault\<close> throws instead of
  returning a count. Of the three incoming accounts, none a duplicate, one is in the
  list afterwards.
\<close>

theorem importVault_unkeyed_counterexample:
  "fst (createVault toy_ext [] toy_world) = Inl VaultIsLocked \<and>
   toy_unkeyed = snd (createVault toy_ext [] toy_world) \<and>
   isUnlocked toy_unkeyed \<and> getAccounts toy_unkeyed = Inr [] \<and>
   parse_export toy_ext toy_payload = Some toy_export \<and>
   decrypt toy_ext (x_encryptedData toy_export) ''transfer'' (x_salt toy_export)
     (x_iv toy_export) (x_hmac toy_export) = Inr toy_plain \<and>
   createChecksum toy_ext toy_plain = x_checksum toy_export \<and>
   parse_accounts toy_ext toy_plain = Some [acc_github, acc_gitlab, acc_mail] \<and>
   fst (importVault toy_ext toy_payload ''transfer'' toy_unkeyed) = Inl FailedToImportVault \<and>
   map input_of (accounts (snd (importVault toy_ext toy_payload ''transfer'' toy_unkeyed)))
     = [input_of acc_github]"
proof -
  have u: "isUnlocked toy_unkeyed" and p: "\<not> truthy (masterPassword toy_unkeyed)"
    and g: "getAccounts toy_unkeyed = Inr []"
    by (simp_all add: toy_unkeyed_fields truthy_def getAccounts_def)
  have "importVault toy_ext toy_payload ''transfer'' toy_unkeyed =
          (Inl FailedToImportVault,
           toy_unkeyed\<lparr>tick := tick toy_unkeyed + 4,
             accounts := accounts toy_unkeyed
                @ [created_account toy_ext (input_of acc_github) (tick toy_unkeyed)]\<rparr>)"
    by (simp add: importVault_without_password [OF u p toy_payload_valid] toy_unkeyed_fields)
  then have "fst (importVault toy_ext toy_payload ''transfer'' toy_unkeyed)
               = Inl FailedToImportVault"
    and "map input_of (accounts (snd (importVault toy_ext toy_payload ''transfer'' toy_unkeyed)))
           = [input_of acc_github]"
    by (simp_all add: toy_unkeyed_fields)
  then show ?thesis
    using u g toy_payload_valid toy_unkeyed_fields(5) by (simp add: toy_unkeyed_def)
qed

text \<open>
  C5, amended: for every vault whose flag is set and every valid transfer payload (it
  parses, decrypts under the transfer password, carries the checksum of its plaintext,
  and its plaintext parses to a list of accounts), what \<^verbatim>\<open>importVault\<close> does depends on
  the master password held.

  When a non-empty master password is held (what \<^verbatim>\<open>saveVault\<close> requires),
  \<^verbatim>\<open>importVault\<close> returns the number of accounts it added, and the vault afterwards is
  the old list, unchanged, followed by the added accounts. An incoming account is
  skipped exactly when an account with the same issuer and name is in the vault at the
  moment it is examined, that is, when its issuer and name occur in the old list or
  earlier in the payload; every other incoming account is added, in order. So no added
  account repeats the issuer and name of an account that was there, or of another added
  account, while every incoming account finds its issuer and name in the vault
  afterwards. Every added account carries the fields of an incoming one with an
  identifier and timestamps made locally by \<^verbatim>\<open>addAccount\<close>. When the incoming accounts
  have pairwise different issuer and name, the added accounts are exactly those without
  a match in the old list.

  When no non-empty master password is held, \<^verbatim>\<open>importVault\<close> returns 0 and changes
  nothing if every incoming account has its issuer and name in the old list; otherwise
  it puts the first incoming account without a match at the end of the list, fails to
  save it and throws its import error.
\<close>

theorem importVault_deduplicates:
  assumes "isUnlocked w"
      and "parse_export L payload = Some x"
      and "decrypt L (x_encryptedData x) tp (x_salt x) (x_iv x) (x_hmac x) = Inr plain"
      and "createChecksum L plain = x_checksum x"
      and "parse_accounts L plain = Some incoming"
  shows "(truthy (masterPassword w) \<longrightarrow>
    (\<exists>added.
     fst (importVault L payload tp w) = Inr (length added) \<and>
     accounts (snd (importVault L payload tp w)) = accounts w @ added \<and>
     (\<forall>b \<in> set incoming. entry_key b \<in> entry_key ` set (accounts w @ added)) \<and>
     (\<forall>a \<in> set added. entry_key a \<notin> entry_key ` set (accounts w)) \<and>
     distinct (map entry_key added) \<and>
     map input_of added =
       map input_of
         (nths incoming
            {i. entry_key (incoming ! i) \<notin> entry_key ` set (accounts w @ take i incoming)}) \<and>
     (\<forall>a \<in> set added. \<exists>b \<in> set incoming. \<exists>t \<ge> tick w. a = created_account L (input_of b) t) \<and>
     (distinct (map entry_key incoming) \<longrightarrow>
        map input_of added =
          map input_of (filter (\<lambda>b. entry_key b \<notin> entry_key ` set (accounts w)) incoming)))) \<and>
   (\<not> truthy (masterPassword w) \<longrightarrow>
      importVault L payload tp w =
        (case filter (\<lambda>b. entry_key b \<notin> entry_key ` set (accounts w)) incoming of
           [] \<Rightarrow> (Inr 0, w)
         | b # rest \<Rightarrow>
             (Inl FailedToImportVault,
              w\<lparr>tick := tick w + 4,
                accounts := accounts w @ [created_account L (input_of b) (tick w)]\<rparr>)))"
proof (intro conjI impI)
  assume t: "truthy (masterPassword w)"
  have v: "vault_unlocked w" using assms(1) t by (simp add: vault_unlocked_def)
  have u: "isUnlocked w" by (rule assms(1))
  have tr: "importVault_try L payload tp w = import_loop L incoming 0 w"
    using assms(2-5) by (simp add: importVault_try_def)
  have "importVault L payload tp w = import_loop L incoming 0 w"
  proof -
    have "\<exists>k. fst (import_loop L incoming 0 w) = Inr k"
      using import_loop_unlocked [OF v, of L incoming 0] by auto
    then show ?thesis
      using u by (cases "import_loop L incoming 0 w") (auto simp add: importVault_def tr)
  qed
  then have eq: "importVault L payload tp w = import_loop L incoming 0 w" .
  obtain added where
    r: "fst (import_loop L incoming 0 w) = Inr (0 + length added)"
    and a: "accounts (snd (import_loop L incoming 0 w)) = accounts w @ added"
    and p1: "\<forall>b \<in> set incoming. entry_key b \<in> entry_key ` set (accounts w @ added)"
    and p2: "\<forall>a \<in> set added. entry_key a \<notin> entry_key ` set (accounts w)"
    and p3: "distinct (map entry_key added)"
    and p4: "\<forall>a \<in> set added. \<exists>b \<in> set incoming. \<exists>t \<ge> tick w.
               a = created_account L (input_of b) t"
    and p5: "distinct (map entry_key incoming) \<longrightarrow>
        map input_of added =
          map input_of (filter (\<lambda>b. entry_key b \<notin> entry_key ` set (accounts w)) incoming)"
    using import_loop_unlocked [OF v, of L incoming 0] by blast
  have p6: "map input_of added =
       map input_of
         (nths incoming
            {i. entry_key (incoming ! i) \<notin> entry_key ` set (accounts w @ take i incoming)})"
    using import_loop_positions [OF v, of L incoming 0] a by simp
  from r a p1 p2 p3 p6 p4 p5 show "\<exists>added.
     fst (importVault L payload tp w) = Inr (length added) \<and>
     accounts (snd (importVault L payload tp w)) = accounts w @ added \<and>
     (\<forall>b \<in> set incoming. entry_key b \<in> entry_key ` set (accounts w @ added)) \<and>
     (\<forall>a \<in> set added. entry_key a \<notin> entry_key ` set (accounts w)) \<and>
     distinct (map entry_key added) \<and>
     map input_of added =
       map input_of
         (nths incoming
            {i. entry_key (incoming ! i) \<notin> entry_key ` set (accounts w @ take i incoming)}) \<and>
     (\<forall>a \<in> set added. \<exists>b \<in> set incoming. \<exists>t \<ge> tick w. a = created_account L (input_of b) t) \<and>
     (distinct (map entry_key incoming) \<longrightarrow>
        map input_of added =
          map input_of (filter (\<lambda>b. entry_key b \<notin> entry_key ` set (accounts w)) incoming))"
    unfolding eq by (intro exI [of _ added]) simp
next
  assume "\<not> truthy (masterPassword w)"
  with assms show "importVault L payload tp w =
        (case filter (\<lambda>b. entry_key b \<notin> entry_key ` set (accounts w)) incoming of
           [] \<Rightarrow> (Inr 0, w)
         | b # rest \<Rightarrow>
             (Inl FailedToImportVault,
              w\<lparr>tick := tick w + 4,
                accounts := accounts w @ [created_account L (input_of b) (tick w)]\<rparr>))"
    by (intro importVault_without_password)
qed

theorem importVault_deduplicates_witness:
  "isUnlocked toy_dest \<and> truthy (masterPassword toy_dest) \<and>
   parse_export toy_ext toy_payload = Some toy_export \<and>
   decrypt toy_ext (x_encryptedData toy_export) ''transfer'' (x_salt toy_export)
     (x_iv toy_export) (x_hmac toy_export) = Inr toy_plain \<and>
   createChecksum toy_ext toy_plain = x_checksum toy_export \<and>
   parse_accounts toy_ext toy_plain = Some [acc_github, acc_gitlab, acc_mail] \<and>
   accounts toy_dest = [acc_github_old] \<and>
   fst (importVault toy_ext toy_payload ''transfer'' toy_dest) = Inr 2 \<and>
   take 1 (accounts (snd (importVault toy_ext toy_payload ''transfer'' toy_dest)))
     = [acc_github_old] \<and>
   map input_of (drop 1 (accounts (snd (importVault toy_ext toy_payload ''transfer'' toy_dest))))
     = [input_of acc_gitlab, input_of acc_mail] \<and>
   isUnlocked (toy_dest\<lparr>masterPassword := Some []\<rparr>) \<and>
   \<not> truthy (masterPassword (toy_dest\<lparr>masterPassword := Some []\<rparr>)) \<and>
   fst (importVault toy_ext toy_payload ''transfer'' (toy_dest\<lparr>masterPassword := Some []\<rparr>))
     = Inl FailedToImportVault \<and>
   map input_of
     (accounts (snd (importVault toy_ext toy_payload ''transfer''
                       (toy_dest\<lparr>masterPassword := Some []\<rparr>))))
     = [input_of acc_github_old, input_of acc_gitlab]"
proof -
  have v: "vault_unlocked toy_dest"
    using toy_created_fields by (simp add: toy_dest_def vault_unlocked_def)
  then have u: "isUnlocked toy_dest" and t: "truthy (masterPassword toy_dest)"
    by (simp_all add: vault_unlocked_def)
  note px = toy_payload_valid(1) and dec = toy_payload_valid(2)
    and chk = toy_payload_valid(3) and pa = toy_payload_valid(4)
  have old: "accounts toy_dest = [acc_github_old]"
    by (simp add: toy_dest_def)
  have keys: "distinct (map entry_key [acc_github, acc_gitlab, acc_mail])"
    by (simp add: entry_key_def acc_github_def acc_gitlab_def acc_mail_def)
  have flt: "filter (\<lambda>b. entry_key b \<notin> entry_key ` set [acc_github_old])
               [acc_github, acc_gitlab, acc_mail] = [acc_gitlab, acc_mail]"
    by (simp add: entry_key_def acc_github_def acc_gitlab_def acc_mail_def acc_github_old_def)
  from importVault_deduplicates [OF u px dec chk pa] t obtain added where
    r: "fst (importVault toy_ext toy_payload ''transfer'' toy_dest) = Inr (length added)"
    and a: "accounts (snd (importVault toy_ext toy_payload ''transfer'' toy_dest))
              = accounts toy_dest @ added"
    and m: "distinct (map entry_key [acc_github, acc_gitlab, acc_mail]) \<longrightarrow>
        map input_of added =
          map input_of (filter (\<lambda>b. entry_key b \<notin> entry_key ` set (accounts toy_dest))
                          [acc_github, acc_gitlab, acc_mail])"
    by blast
  have ma: "map input_of added = [input_of acc_gitlab, input_of acc_mail]"
    using m keys flt by (simp add: old)
  then have "length (map input_of added) = 2" by simp
  then have len: "length added = 2" by simp
  let ?w = "toy_dest\<lparr>masterPassword := Some []\<rparr>"
  have u2: "isUnlocked ?w" using u by simp
  have t2: "\<not> truthy (masterPassword ?w)" by (simp add: truthy_def)
  have old2: "accounts ?w = [acc_github_old]" by (simp add: old)
  have flt2: "filter (\<lambda>b. entry_key b \<notin> entry_key ` set (accounts ?w))
                [acc_github, acc_gitlab, acc_mail] = [acc_gitlab, acc_mail]"
    by (simp only: old2 flt)
  have "importVault toy_ext toy_payload ''transfer'' ?w =
          (case filter (\<lambda>b. entry_key b \<notin> entry_key ` set (accounts ?w))
                  [acc_github, acc_gitlab, acc_mail] of
             [] \<Rightarrow> (Inr 0, ?w)
           | b # rest \<Rightarrow>
               (Inl FailedToImportVault,
                ?w\<lparr>tick := tick ?w + 4,
                   accounts := accounts ?w @ [created_account toy_ext (input_of b) (tick ?w)]\<rparr>))"
    using importVault_deduplicates [OF u2 px dec chk pa] t2 by blast
  then have "importVault toy_ext toy_payload ''transfer'' ?w =
          (Inl FailedToImportVault,
           ?w\<lparr>tick := tick ?w + 4,
              accounts := accounts ?w @ [created_account toy_ext (input_of acc_gitlab) (tick ?w)]\<rparr>)"
    by (simp only: flt2 list.case)
  then have f2: "fst (importVault toy_ext toy_payload ''transfer'' ?w) = Inl FailedToImportVault"
    and a2: "map input_of (accounts (snd (importVault toy_ext toy_payload ''transfer'' ?w)))
               = [input_of acc_github_old, input_of acc_gitlab]"
    by (simp_all add: old)
  from u t px dec chk pa old r a ma len u2 t2 f2 a2 show ?thesis by simp
qed

section \<open>C7: the checksum of a transfer payload\<close>

text \<open>
  C7: the checksum is the first eight characters of the hexadecimal SHA-256 of the
  text. After the envelope of a payload has been decrypted, \<^verbatim>\<open>importVault\<close> recomputes
  the checksum of the plaintext and, when it differs from the payload's, fails with an
  error and leaves the state as it was, so no account is added. A payload produced by
  \<^verbatim>\<open>exportVault\<close> and imported with the password it was encrypted with never fails that
  check: the import goes on to parse the accounts and run the loop (given that the
  libraries round-trip the payload and the serialised accounts, which are never empty).
\<close>

theorem importVault_verifies_checksum:
  "createChecksum L d = take 8 (enc_hex L (sha256 L d)) \<and>
   (\<forall>x plain.
      isUnlocked w \<and> parse_export L payload = Some x \<and>
      decrypt L (x_encryptedData x) tp (x_salt x) (x_iv x) (x_hmac x) = Inr plain \<and>
      createChecksum L plain \<noteq> x_checksum x \<longrightarrow>
        importVault_try L payload tp w = (Inl ChecksumVerificationFailed, w) \<and>
        importVault L payload tp w = (Inl FailedToImportVault, w)) \<and>
   (\<forall>w1 mpw tpo.
      vault_unlocked w1 \<and> masterPassword w1 = Some mpw \<and>
      parse_export L (stringify_export L (export_record L (transfer_password tpo mpw) w1))
        = Some (export_record L (transfer_password tpo mpw) w1) \<and>
      library_roundtrip L (stringify_accounts L (accounts w1)) (transfer_password tpo mpw)
        (saltUsed L None w1) (ivUsed L None None w1) \<and>
      stringify_accounts L (accounts w1) \<noteq> [] \<longrightarrow>
        (\<exists>exported.
           fst (exportVault L tpo w1) = Inr exported \<and>
           fst (importVault_try L exported (transfer_password tpo mpw) w)
             \<noteq> Inl ChecksumVerificationFailed \<and>
           importVault_try L exported (transfer_password tpo mpw) w =
             (case parse_accounts L (stringify_accounts L (accounts w1)) of
                None \<Rightarrow> (Inl JsonSyntaxError, w)
              | Some incoming \<Rightarrow> import_loop L incoming 0 w)))"
proof -
  have c1: "createChecksum L d = take 8 (enc_hex L (sha256 L d))"
    by (simp add: createChecksum_def)
  have c2: "\<forall>x plain.
      isUnlocked w \<and> parse_export L payload = Some x \<and>
      decrypt L (x_encryptedData x) tp (x_salt x) (x_iv x) (x_hmac x) = Inr plain \<and>
      createChecksum L plain \<noteq> x_checksum x \<longrightarrow>
        importVault_try L payload tp w = (Inl ChecksumVerificationFailed, w) \<and>
        importVault L payload tp w = (Inl FailedToImportVault, w)"
    by (simp add: importVault_def importVault_try_def)
  have c3: "\<exists>exported.
           fst (exportVault L tpo w1) = Inr exported \<and>
           fst (importVault_try L exported (transfer_password tpo mpw) w)
             \<noteq> Inl ChecksumVerificationFailed \<and>
           importVault_try L exported (transfer_password tpo mpw) w =
             (case parse_accounts L (stringify_accounts L (accounts w1)) of
                None \<Rightarrow> (Inl JsonSyntaxError, w)
              | Some incoming \<Rightarrow> import_loop L incoming 0 w)"
    if h: "vault_unlocked w1 \<and> masterPassword w1 = Some mpw \<and>
      parse_export L (stringify_export L (export_record L (transfer_password tpo mpw) w1))
        = Some (export_record L (transfer_password tpo mpw) w1) \<and>
      library_roundtrip L (stringify_accounts L (accounts w1)) (transfer_password tpo mpw)
        (saltUsed L None w1) (ivUsed L None None w1) \<and>
      stringify_accounts L (accounts w1) \<noteq> []"
    for w1 mpw tpo
  proof -
    let ?pw = "transfer_password tpo mpw"
    let ?exported = "stringify_export L (export_record L ?pw w1)"
    have e: "fst (exportVault L tpo w1) = Inr ?exported"
      using h by (simp add: exportVault_fst)
    have i: "importVault_try L ?exported ?pw w =
             (case parse_accounts L (stringify_accounts L (accounts w1)) of
                None \<Rightarrow> (Inl JsonSyntaxError, w)
              | Some incoming \<Rightarrow> import_loop L incoming 0 w)"
      using h by (intro import_of_export) simp_all
    have "fst (importVault_try L ?exported ?pw w) \<noteq> Inl ChecksumVerificationFailed"
    proof
      assume bad: "fst (importVault_try L ?exported ?pw w) = Inl ChecksumVerificationFailed"
      show False
      proof (cases "parse_accounts L (stringify_accounts L (accounts w1))")
        case None
        then show ?thesis using bad i by simp
      next
        case (Some incoming)
        then have "fst (import_loop L incoming 0 w) = Inl ChecksumVerificationFailed"
          using bad i by simp
        then show ?thesis using import_loop_error by blast
      qed
    qed
    with e i show ?thesis by blast
  qed
  from c1 c2 c3 show ?thesis by blast
qed


theorem importVault_verifies_checksum_witness:
  "isUnlocked toy_dest \<and>
   parse_export toy_ext toy_payload_bad = Some toy_export_bad \<and>
   decrypt toy_ext (x_encryptedData toy_export_bad) ''transfer'' (x_salt toy_export_bad)
     (x_iv toy_export_bad) (x_hmac toy_export_bad) = Inr toy_plain \<and>
   createChecksum toy_ext toy_plain \<noteq> x_checksum toy_export_bad \<and>
   importVault toy_ext toy_payload_bad ''transfer'' toy_dest = (Inl FailedToImportVault, toy_dest) \<and>
   vault_unlocked toy_source \<and>
   masterPassword toy_source = Some ''correct-horse-battery'' \<and>
   transfer_password (Some ''transfer'') ''correct-horse-battery'' = ''transfer'' \<and>
   stringify_accounts toy_ext (accounts toy_source) = toy_plain \<and>
   export_record toy_ext ''transfer'' toy_source = toy_export \<and>
   parse_export toy_ext (stringify_export toy_ext toy_export) = Some toy_export \<and>
   library_roundtrip toy_ext toy_plain ''transfer''
     (saltUsed toy_ext None toy_source) (ivUsed toy_ext None None toy_source) \<and>
   fst (exportVault toy_ext (Some ''transfer'') toy_source) = Inr toy_payload \<and>
   fst (importVault_try toy_ext toy_payload ''transfer'' toy_dest)
     \<noteq> Inl ChecksumVerificationFailed"
proof -
  have u: "isUnlocked toy_dest"
    using toy_created_fields by (simp add: toy_dest_def)
  have px: "parse_export toy_ext toy_payload_bad = Some toy_export_bad"
    by (simp add: toy_payload_bad_def toy_export_bad_def toy_export_def toy_ext_def toy_join_def)
  have dec: "decrypt toy_ext (x_encryptedData toy_export_bad) ''transfer''
     (x_salt toy_export_bad) (x_iv toy_export_bad) (x_hmac toy_export_bad) = Inr toy_plain"
    by (simp add: toy_export_bad_def toy_export_def toy_plain_def toy_simps enc_simps Let_def
          replicate_num)
  have chk: "createChecksum toy_ext toy_plain \<noteq> x_checksum toy_export_bad"
    by (simp add: createChecksum_def toy_export_bad_def toy_export_def toy_plain_def toy_simps)
  have v: "vault_unlocked toy_source"
    using toy_created_fields by (simp add: toy_source_def vault_unlocked_def)
  have mp: "masterPassword toy_source = Some ''correct-horse-battery''"
    using toy_created_fields by (simp add: toy_source_def)
  have tp: "transfer_password (Some ''transfer'') ''correct-horse-battery'' = ''transfer''"
    by (simp add: transfer_password_def)
  have tk: "tick toy_source = 2"
    using toy_created_fields by (simp add: toy_source_def)
  have sa: "stringify_accounts toy_ext (accounts toy_source) = toy_plain"
    by (simp add: toy_source_def toy_plain_def toy_simps)
  have su: "saltUsed toy_ext None toy_source = map charCodeAt ''stststststststst''"
    by (simp add: saltUsed_def generateSalt_def getRandomValues_def tk toy_ext_def upt_rec)
  have iu: "ivUsed toy_ext None None toy_source = map charCodeAt ''tstststststststs''"
    by (simp add: ivUsed_def generateSalt_def generateIV_def getRandomValues_def tk toy_ext_def
          upt_rec)
  have er: "export_record toy_ext ''transfer'' toy_source = toy_export"
    unfolding export_record_def encrypt_fst sa su iu
    by (simp add: toy_export_def toy_plain_def toy_simps createChecksum_def Let_def
          toWordArray_def deriveKey_def KEY_LENGTH_def PBKDF2_ITERATIONS_def
          arrayBufferToBase64_def VAULT_VERSION_def replicate_num)
  have pe: "parse_export toy_ext (stringify_export toy_ext toy_export) = Some toy_export"
    by (simp add: toy_export_def toy_ext_def toy_join_def)
  have se: "stringify_export toy_ext toy_export = toy_payload"
    by (simp add: toy_payload_def toy_ext_def)
  have rt: "library_roundtrip toy_ext toy_plain ''transfer''
     (saltUsed toy_ext None toy_source) (ivUsed toy_ext None None toy_source)"
    unfolding su iu
    by (simp add: library_roundtrip_def toy_plain_def toy_simps Let_def)
  have ne: "toy_plain \<noteq> []" by (simp add: toy_plain_def)
  note inst = importVault_verifies_checksum
               [of toy_ext "[]" toy_dest toy_payload_bad "''transfer''"]
  have bad: "importVault toy_ext toy_payload_bad ''transfer'' toy_dest
               = (Inl FailedToImportVault, toy_dest)"
    using inst u px dec chk by blast
  have "\<exists>exported.
           fst (exportVault toy_ext (Some ''transfer'') toy_source) = Inr exported \<and>
           fst (importVault_try toy_ext exported
                  (transfer_password (Some ''transfer'') ''correct-horse-battery'') toy_dest)
             \<noteq> Inl ChecksumVerificationFailed"
  proof -
    note part = inst [THEN conjunct2, THEN conjunct2, rule_format,
                      of toy_source "''correct-horse-battery''" "Some ''transfer''"]
    have "\<exists>exported.
           fst (exportVault toy_ext (Some ''transfer'') toy_source) = Inr exported \<and>
           fst (importVault_try toy_ext exported
                  (transfer_password (Some ''transfer'') ''correct-horse-battery'') toy_dest)
             \<noteq> Inl ChecksumVerificationFailed \<and>
           importVault_try toy_ext exported
                  (transfer_password (Some ''transfer'') ''correct-horse-battery'') toy_dest =
             (case parse_accounts toy_ext (stringify_accounts toy_ext (accounts toy_source)) of
                None \<Rightarrow> (Inl JsonSyntaxError, toy_dest)
              | Some incoming \<Rightarrow> import_loop toy_ext incoming 0 toy_dest)"
      by (rule part) (simp add: v mp tp er pe sa rt ne)
    then show ?thesis by blast
  qed
  then have good: "fst (exportVault toy_ext (Some ''transfer'') toy_source) = Inr toy_payload \<and>
     fst (importVault_try toy_ext toy_payload ''transfer'' toy_dest)
       \<noteq> Inl ChecksumVerificationFailed"
    using exportVault_fst [OF v mp, of toy_ext "Some ''transfer''"]
    by (simp add: tp er se)
  from u px dec chk bad v mp tp sa er pe rt good show ?thesis by simp
qed

section \<open>C6: biometric round trip\<close>

text \<open>
  C6, as stated, fails for the empty password: \<^verbatim>\<open>enable('')\<close> succeeds and stores an
  envelope, but \<^verbatim>\<open>unlock()\<close> decrypts it to the empty string, which \<^verbatim>\<open>decrypt\<close> rejects
  (\<^verbatim>\<open>if (!decryptedString) throw\<close>), and \<^verbatim>\<open>unlock\<close> turns the exception into \<^verbatim>\<open>null\<close>. The
  challenge of this platform always succeeds.
\<close>

theorem biometric_empty_password_counterexample:
  "fst (enable toy_ext [] toy_world) \<and>
   fst (unlock toy_ext (snd (enable toy_ext [] toy_world))) = None"
proof -
  have el: "isElectron toy_ext" by (simp add: toy_ext_def)
  have bio: "electron_biometric toy_ext = Some (\<lambda>t reason. True)" by (simp add: toy_ext_def)
  have yes: "\<forall>t reason. (\<lambda>(t::nat) (reason::string). True) t reason" by simp
  have json: "parse_session toy_ext (stringify_session toy_ext (session_record toy_ext [] toy_world))
                = Some (session_record toy_ext [] toy_world)"
    by (simp add: session_simps)
  have nonempty: "stringify_session toy_ext (session_record toy_ext [] toy_world) \<noteq> []"
    by (simp add: session_simps)
  have rt: "library_roundtrip toy_ext [] (s_sessionKey (session_record toy_ext [] toy_world))
              (saltUsed toy_ext None (toy_world\<lparr>tick := tick toy_world + 2\<rparr>))
              (ivUsed toy_ext None None (toy_world\<lparr>tick := tick toy_world + 2\<rparr>))"
    by (simp add: session_simps)
  from unlock_after_enable [OF el bio yes json nonempty rt] show ?thesis by simp
qed

text \<open>
  C6, amended: with a biometric challenge that always succeeds, \<^verbatim>\<open>enable(pw)\<close> for a
  non-empty \<open>pw\<close> returns true and a following \<^verbatim>\<open>unlock()\<close> returns exactly \<open>pw\<close>
  (given that the libraries round-trip \<open>pw\<close> under the session key and the stored
  session object through JSON); after \<^verbatim>\<open>disable()\<close>, \<^verbatim>\<open>unlock()\<close> returns \<^verbatim>\<open>null\<close>; and if
  the challenge during \<^verbatim>\<open>enable\<close> fails, \<^verbatim>\<open>enable\<close> returns false and storage is left as it
  was: neither session data nor the enabled flag is written.
\<close>

theorem biometric_round_trip:
  "(\<forall>prompt.
      isElectron L \<and> electron_biometric L = Some prompt \<and> (\<forall>t reason. prompt t reason) \<and>
      pw \<noteq> [] \<and>
      parse_session L (stringify_session L (session_record L pw w))
        = Some (session_record L pw w) \<and>
      stringify_session L (session_record L pw w) \<noteq> [] \<and>
      library_roundtrip L pw (s_sessionKey (session_record L pw w))
        (saltUsed L None (w\<lparr>tick := tick w + 2\<rparr>))
        (ivUsed L None None (w\<lparr>tick := tick w + 2\<rparr>)) \<longrightarrow>
        fst (enable L pw w) \<and> fst (unlock L (snd (enable L pw w))) = Some pw) \<and>
   fst (unlock L (disable L w)) = None \<and>
   fst (unlock L (disable L (snd (enable L pw w)))) = None \<and>
   (\<not> fst (authenticate L ''Enable biometric unlock'' w) \<longrightarrow>
      \<not> fst (enable L pw w) \<and>
      localStorage (snd (enable L pw w)) = localStorage w \<and>
      electronStore (snd (enable L pw w)) = electronStore w \<and>
      getItem L SESSION_KEY_STORAGE (snd (enable L pw w)) = getItem L SESSION_KEY_STORAGE w \<and>
      getItem L BIOMETRIC_KEY_STORAGE (snd (enable L pw w)) = getItem L BIOMETRIC_KEY_STORAGE w)"
proof -
  have c1: "\<forall>prompt.
      isElectron L \<and> electron_biometric L = Some prompt \<and> (\<forall>t reason. prompt t reason) \<and>
      pw \<noteq> [] \<and>
      parse_session L (stringify_session L (session_record L pw w))
        = Some (session_record L pw w) \<and>
      stringify_session L (session_record L pw w) \<noteq> [] \<and>
      library_roundtrip L pw (s_sessionKey (session_record L pw w))
        (saltUsed L None (w\<lparr>tick := tick w + 2\<rparr>))
        (ivUsed L None None (w\<lparr>tick := tick w + 2\<rparr>)) \<longrightarrow>
        fst (enable L pw w) \<and> fst (unlock L (snd (enable L pw w))) = Some pw"
    using unlock_after_enable [of L _ pw w] by auto
  have c2: "fst (unlock L (disable L w)) = None"
    and c3: "fst (unlock L (disable L (snd (enable L pw w)))) = None"
    by (rule unlock_after_disable)+
  have c4: "\<not> fst (authenticate L ''Enable biometric unlock'' w) \<longrightarrow>
      \<not> fst (enable L pw w) \<and>
      localStorage (snd (enable L pw w)) = localStorage w \<and>
      electronStore (snd (enable L pw w)) = electronStore w \<and>
      getItem L SESSION_KEY_STORAGE (snd (enable L pw w)) = getItem L SESSION_KEY_STORAGE w \<and>
      getItem L BIOMETRIC_KEY_STORAGE (snd (enable L pw w)) = getItem L BIOMETRIC_KEY_STORAGE w"
    using enable_refused(1-3) [where L = L and w = w and pw = pw]
          enable_refused(4) [where L = L and w = w and pw = pw and k = SESSION_KEY_STORAGE]
          enable_refused(4) [where L = L and w = w and pw = pw and k = BIOMETRIC_KEY_STORAGE]
    by blast
  from c1 c2 c3 c4 show ?thesis by blast
qed

theorem biometric_round_trip_witness:
  "isElectron toy_ext \<and> electron_biometric toy_ext = Some (\<lambda>t reason. True) \<and>
   ''correct-horse-battery'' \<noteq> [] \<and>
   parse_session toy_ext
     (stringify_session toy_ext (session_record toy_ext ''correct-horse-battery'' toy_world))
     = Some (session_record toy_ext ''correct-horse-battery'' toy_world) \<and>
   library_roundtrip toy_ext ''correct-horse-battery''
     (s_sessionKey (session_record toy_ext ''correct-horse-battery'' toy_world))
     (saltUsed toy_ext None (toy_world\<lparr>tick := tick toy_world + 2\<rparr>))
     (ivUsed toy_ext None None (toy_world\<lparr>tick := tick toy_world + 2\<rparr>)) \<and>
   fst (enable toy_ext ''correct-horse-battery'' toy_world) \<and>
   fst (unlock toy_ext (snd (enable toy_ext ''correct-horse-battery'' toy_world)))
     = Some ''correct-horse-battery'' \<and>
   fst (unlock toy_ext (disable toy_ext (snd (enable toy_ext ''correct-horse-battery'' toy_world))))
     = None \<and>
   \<not> fst (authenticate toy_refusing ''Enable biometric unlock'' toy_world) \<and>
   \<not> fst (enable toy_refusing ''correct-horse-battery'' toy_world) \<and>
   getItem toy_refusing SESSION_KEY_STORAGE
     (snd (enable toy_refusing ''correct-horse-battery'' toy_world)) = None"
proof -
  let ?pw = "''correct-horse-battery''"
  have el: "isElectron toy_ext" by (simp add: toy_ext_def)
  have bio: "electron_biometric toy_ext = Some (\<lambda>t reason. True)" by (simp add: toy_ext_def)
  have ne: "?pw \<noteq> []" by simp
  have json: "parse_session toy_ext (stringify_session toy_ext (session_record toy_ext ?pw toy_world))
                = Some (session_record toy_ext ?pw toy_world)"
    by (simp add: session_simps)
  have nonempty: "stringify_session toy_ext (session_record toy_ext ?pw toy_world) \<noteq> []"
    by (simp add: session_simps)
  have rt: "library_roundtrip toy_ext ?pw (s_sessionKey (session_record toy_ext ?pw toy_world))
              (saltUsed toy_ext None (toy_world\<lparr>tick := tick toy_world + 2\<rparr>))
              (ivUsed toy_ext None None (toy_world\<lparr>tick := tick toy_world + 2\<rparr>))"
    by (simp add: session_simps)
  note accept = biometric_round_trip [of toy_ext ?pw toy_world]
  have ok: "fst (enable toy_ext ?pw toy_world) \<and>
            fst (unlock toy_ext (snd (enable toy_ext ?pw toy_world))) = Some ?pw"
  proof (rule accept [THEN conjunct1, rule_format, of "\<lambda>t reason. True"])
    have "\<forall>t reason. (\<lambda>(t::nat) (reason::string). True) t reason" by simp
    with el bio ne json nonempty rt
    show "isElectron toy_ext \<and> electron_biometric toy_ext = Some (\<lambda>t reason. True) \<and>
      (\<forall>t reason. (\<lambda>(t::nat) (reason::string). True) t reason) \<and>
      ?pw \<noteq> [] \<and>
      parse_session toy_ext (stringify_session toy_ext (session_record toy_ext ?pw toy_world))
        = Some (session_record toy_ext ?pw toy_world) \<and>
      stringify_session toy_ext (session_record toy_ext ?pw toy_world) \<noteq> [] \<and>
      library_roundtrip toy_ext ?pw (s_sessionKey (session_record toy_ext ?pw toy_world))
        (saltUsed toy_ext None (toy_world\<lparr>tick := tick toy_world + 2\<rparr>))
        (ivUsed toy_ext None None (toy_world\<lparr>tick := tick toy_world + 2\<rparr>))"
      by blast
  qed
  have off: "fst (unlock toy_ext (disable toy_ext (snd (enable toy_ext ?pw toy_world)))) = None"
    using accept by blast
  have no: "\<not> fst (authenticate toy_refusing ''Enable biometric unlock'' toy_world)"
    by (simp add: authenticate_def toy_refusing_def toy_ext_def)
  note refuse = biometric_round_trip [of toy_refusing ?pw toy_world]
  have refused: "\<not> fst (enable toy_refusing ?pw toy_world) \<and>
     getItem toy_refusing SESSION_KEY_STORAGE (snd (enable toy_refusing ?pw toy_world))
       = getItem toy_refusing SESSION_KEY_STORAGE toy_world"
    using refuse no by blast
  have empty: "getItem toy_refusing SESSION_KEY_STORAGE toy_world = None"
    by (simp add: getItem_def toy_refusing_def toy_ext_def toy_world_def)
  from el bio ne json rt ok off no refused empty show ?thesis by simp
qed

section \<open>C4: the stored secret\<close>

text \<open>
  C4, as stated, fails: \<^verbatim>\<open>AccountService.addManual\<close> validates a cleaned copy of the secret
  (\<^verbatim>\<open>validateSecret\<close> strips white space and upper-cases a local variable) and then passes
  the caller's object to \<^verbatim>\<open>addAccount\<close> untouched. A secret in lower case with spaces is
  admitted and stored exactly as supplied.
\<close>

theorem addManual_keeps_secret_counterexample:
  "validateSecret toy_ext (secret input_spaced) \<and>
   fst (addManual toy_ext input_spaced toy_created)
     = Inr (created_account toy_ext input_spaced (tick toy_created)) \<and>
   map secret (accounts (snd (addManual toy_ext input_spaced toy_created)))
     = [''jbsw y3dp ehpk 3pxp''] \<and>
   toUpperCase (removeWhitespace ''jbsw y3dp ehpk 3pxp'') = Some ''JBSWY3DPEHPK3PXP''"
proof -
  have v: "validateSecret toy_ext (secret input_spaced)"
    by (simp add: input_spaced_def secret_simps toy_ext_def)
  have f: "fst (addManual toy_ext input_spaced toy_created)
             = Inr (created_account toy_ext input_spaced (tick toy_created))"
    using v toy_created_fields(5) by (rule addManual_accepted)
  have "accounts (snd (addManual toy_ext input_spaced toy_created))
          = accounts toy_created @ [created_account toy_ext input_spaced (tick toy_created)]"
    using v toy_created_fields(5) by (rule addManual_accepted)
  then have s: "map secret (accounts (snd (addManual toy_ext input_spaced toy_created)))
                  = [''jbsw y3dp ehpk 3pxp'']"
    by (simp add: toy_created_fields created_account_def input_spaced_def)
  have n: "toUpperCase (removeWhitespace ''jbsw y3dp ehpk 3pxp'') = Some ''JBSWY3DPEHPK3PXP''"
    by (simp add: secret_simps)
  from v f s n show ?thesis by simp
qed

text \<open>
  C4, amended: \<^verbatim>\<open>validateSecret\<close> accepts a secret exactly when its cleaned form (white
  space stripped, then upper case) matches the Base32 pattern and is accepted by the
  TOTP constructor. \<^verbatim>\<open>AccountService.addManual\<close> rejects every other secret, leaving the
  vault as it was, and stores an accepted secret as the caller supplied it. The
  normalisation is done by the manual form of \<^verbatim>\<open>AddAccountModal\<close> before it calls
  \<^verbatim>\<open>addManual\<close>: for every account admitted through the form, the stored secret is the
  upper-cased input with all white space stripped, whatever the casing and spacing typed;
  it matches the Base32 pattern, has no white space and is its own capital form.
\<close>

theorem manual_add_stores_secret:
  "(validateSecret L (secret a) \<longleftrightarrow>
      (\<exists>clean. toUpperCase (removeWhitespace (secret a)) = Some clean \<and>
               base32Regex clean \<and> otpauth_totp L clean)) \<and>
   (validateSecret L (secret a) \<and> vault_unlocked w \<longrightarrow>
      fst (addManual L a w) = Inr (created_account L a (tick w)) \<and>
      accounts (snd (addManual L a w)) = accounts w @ [created_account L a (tick w)] \<and>
      secret (created_account L a (tick w)) = secret a) \<and>
   (\<not> validateSecret L (secret a) \<longrightarrow> addManual L a w = (Inl InvalidSecretKey, w)) \<and>
   (vault_unlocked w \<and> f_name form \<noteq> [] \<and> validateSecret L (f_secret form) \<longrightarrow>
      fst (handleManualSubmit L form w) = Added) \<and>
   (fst (handleManualSubmit L form w) = Added \<longrightarrow>
      (\<exists>new. accounts (snd (handleManualSubmit L form w)) = accounts w @ [new] \<and>
             toUpperCase (removeWhitespace (f_secret form)) = Some (secret new) \<and>
             base32Regex (secret new) \<and>
             removeWhitespace (secret new) = secret new \<and>
             toUpperCase (secret new) = Some (secret new)))"
proof -
  have c0: "validateSecret L (secret a) \<longleftrightarrow>
      (\<exists>clean. toUpperCase (removeWhitespace (secret a)) = Some clean \<and>
               base32Regex clean \<and> otpauth_totp L clean)"
    by (rule validateSecret_iff)
  have c1: "validateSecret L (secret a) \<and> vault_unlocked w \<longrightarrow>
      fst (addManual L a w) = Inr (created_account L a (tick w)) \<and>
      accounts (snd (addManual L a w)) = accounts w @ [created_account L a (tick w)] \<and>
      secret (created_account L a (tick w)) = secret a"
    using addManual_accepted [of L a w] by (simp add: created_account_def)
  have c2: "\<not> validateSecret L (secret a) \<longrightarrow> addManual L a w = (Inl InvalidSecretKey, w)"
    by (simp add: addManual_def)
  have c3: "vault_unlocked w \<and> f_name form \<noteq> [] \<and> validateSecret L (f_secret form) \<longrightarrow>
      fst (handleManualSubmit L form w) = Added"
    using handleManualSubmit_added(1) [of w form L] by blast
  have c4: "\<exists>new. accounts (snd (handleManualSubmit L form w)) = accounts w @ [new] \<and>
             toUpperCase (removeWhitespace (f_secret form)) = Some (secret new) \<and>
             base32Regex (secret new) \<and>
             removeWhitespace (secret new) = secret new \<and>
             toUpperCase (secret new) = Some (secret new)"
    if h: "fst (handleManualSubmit L form w) = Added"
  proof -
    have nv: "f_name form \<noteq> [] \<and> validateSecret L (f_secret form)"
      and u: "vault_unlocked w"
      using handleManualSubmit_Added_only_if [OF h] by blast+
    obtain new where
      acc: "accounts (snd (handleManualSubmit L form w)) = accounts w @ [new]"
      and sec: "toUpperCase (removeWhitespace (f_secret form)) = Some (secret new)"
      using handleManualSubmit_added(2) [of w form L] u nv by blast
    have r: "base32Regex (secret new)"
      using validateSecret_regex [of L "f_secret form"] nv sec by auto
    show ?thesis
      using acc sec r base32Regex_normal(1,2) [OF r] by blast
  qed
  from c0 c1 c2 c3 c4 show ?thesis by blast
qed

theorem manual_add_stores_secret_witness:
  "vault_unlocked toy_created \<and> f_name toy_form \<noteq> [] \<and>
   validateSecret toy_ext (f_secret toy_form) \<and>
   fst (handleManualSubmit toy_ext toy_form toy_created) = Added \<and>
   map secret (accounts (snd (handleManualSubmit toy_ext toy_form toy_created)))
     = [''JBSWY3DPEHPK3PXP''] \<and>
   validateSecret toy_ext (secret input_github) \<and>
   map secret (accounts (snd (addManual toy_ext input_github toy_created)))
     = [''JBSWY3DPEHPK3PXP''] \<and>
   validateSecret toy_ext (f_secret toy_form_sharp) \<and>
   map secret (accounts (snd (handleManualSubmit toy_ext toy_form_sharp toy_created)))
     = [''JSS2''] \<and>
   \<not> validateSecret toy_ext [CHR ''j'', CHR 0xFF, CHR ''2'']"
proof -
  have u: "vault_unlocked toy_created" by (rule toy_created_fields)
  have n: "f_name toy_form \<noteq> []" by (simp add: toy_form_def)
  have v: "validateSecret toy_ext (f_secret toy_form)"
    by (simp add: toy_form_def secret_simps toy_ext_def)
  have cl: "toUpperCase (removeWhitespace (f_secret toy_form)) = Some ''JBSWY3DPEHPK3PXP''"
    by (simp add: toy_form_def secret_simps)
  note form = manual_add_stores_secret [of toy_ext input_github toy_created toy_form]
  have added: "fst (handleManualSubmit toy_ext toy_form toy_created) = Added"
    using form u n v by blast
  then obtain new where
    "accounts (snd (handleManualSubmit toy_ext toy_form toy_created))
       = accounts toy_created @ [new]"
    "toUpperCase (removeWhitespace (f_secret toy_form)) = Some (secret new)"
    using form by blast
  then have s1: "map secret (accounts (snd (handleManualSubmit toy_ext toy_form toy_created)))
                   = [''JBSWY3DPEHPK3PXP'']"
    by (simp add: toy_created_fields cl)
  have v2: "validateSecret toy_ext (secret input_github)"
    by (simp add: input_github_def secret_simps toy_ext_def)
  have "accounts (snd (addManual toy_ext input_github toy_created))
          = accounts toy_created @ [created_account toy_ext input_github (tick toy_created)]"
    using form v2 u by blast
  then have s2: "map secret (accounts (snd (addManual toy_ext input_github toy_created)))
                   = [''JBSWY3DPEHPK3PXP'']"
    by (simp add: toy_created_fields created_account_def input_github_def)
  note sharp = manual_add_stores_secret [of toy_ext input_github toy_created toy_form_sharp]
  have n3: "f_name toy_form_sharp \<noteq> []" by (simp add: toy_form_sharp_def)
  have v3: "validateSecret toy_ext (f_secret toy_form_sharp)"
    by (simp add: toy_form_sharp_def secret_simps toy_ext_def)
  have cl3: "toUpperCase (removeWhitespace (f_secret toy_form_sharp)) = Some ''JSS2''"
    by (simp add: toy_form_sharp_def secret_simps)
  have "fst (handleManualSubmit toy_ext toy_form_sharp toy_created) = Added"
    using sharp u n3 v3 by blast
  then obtain new3 where
    "accounts (snd (handleManualSubmit toy_ext toy_form_sharp toy_created))
       = accounts toy_created @ [new3]"
    "toUpperCase (removeWhitespace (f_secret toy_form_sharp)) = Some (secret new3)"
    using sharp by blast
  then have s3: "map secret (accounts (snd (handleManualSubmit toy_ext toy_form_sharp toy_created)))
                   = [''JSS2'']"
    by (simp add: toy_created_fields cl3)
  have v4: "\<not> validateSecret toy_ext [CHR ''j'', CHR 0xFF, CHR ''2'']"
    by (simp add: secret_simps toy_ext_def)
  from u n v added s1 v2 s2 v3 s3 v4 show ?thesis by simp
qed

end
